theory Spec2Isabelle
  imports Main "HOL-Library.Char_ord" "HOL-Library.List_Lexorder"
begin

section \<open>Data model\<close>

text \<open>
  The library keeps a directed labelled graph: nodes (package \<open>node\<close>), edges (package
  \<open>edge\<close>), property containers (package \<open>properties\<close>) and the container
  \<open>OpenGraph\<close>. Go pointers to nodes and edges are modelled by the values they point
  to; every mutator returns the updated value next to its result. A Go \<open>map\<close> is a
  partial function, a Go \<open>error\<close> carries its message.

  Property values are Go values of type \<open>interface{}\<close> that passed
  \<open>IsPropertyValueValid\<close>; none of the operations below looks into them, so their type
  is the parameter \<open>'v\<close>.
\<close>

text \<open>
  \<open>Error\<close> is an error made with \<open>fmt.Errorf\<close>; \<open>MarshalError\<close> is the error that
  \<open>encoding/json\<close> returns for a value it cannot encode.
\<close>

datatype error = Error string | MarshalError

type_synonym 'v properties = "string \<rightharpoonup> 'v"

definition NewProperties :: "'v properties" where
  "NewProperties = Map.empty"

text \<open>\<open>GetAllProperties\<close> copies the map entry by entry; \<open>ToDict\<close> calls it.\<close>

definition GetAllProperties :: "'v properties \<Rightarrow> 'v properties" where
  "GetAllProperties p = (\<lambda>k. p k)"

definition Properties_ToDict :: "'v properties \<Rightarrow> 'v properties" where
  "Properties_ToDict p = GetAllProperties p"

subsection \<open>Node\<close>

record 'v node =
  node_id :: string
  kinds :: "string list"
  node_properties :: "'v properties"

text \<open>
  \<open>NewNode\<close>: a nil \<open>kinds\<close> slice and a nil \<open>properties\<close> pointer (here \<open>None\<close>)
  are replaced by fresh empty ones.
\<close>

definition NewNode ::
  "string \<Rightarrow> string list option \<Rightarrow> 'v properties option \<Rightarrow> error + 'v node" where
  "NewNode i ks p =
     (if i = '''' then Inl (Error ''node ID cannot be empty'')
      else Inr \<lparr> node_id = i,
                 kinds = (case ks of None \<Rightarrow> [] | Some l \<Rightarrow> l),
                 node_properties = (case p of None \<Rightarrow> NewProperties | Some q \<Rightarrow> q) \<rparr>)"

fun HasKind_loop :: "string list \<Rightarrow> string \<Rightarrow> bool" where
  "HasKind_loop [] kind = False"
| "HasKind_loop (k # ks) kind = (if k = kind then True else HasKind_loop ks kind)"

definition HasKind :: "'v node \<Rightarrow> string \<Rightarrow> bool" where
  "HasKind n kind = HasKind_loop (kinds n) kind"

definition AddKind :: "'v node \<Rightarrow> string \<Rightarrow> 'v node" where
  "AddKind n kind = (if \<not> HasKind n kind then n\<lparr>kinds := kinds n @ [kind]\<rparr> else n)"

definition GetID :: "'v node \<Rightarrow> string" where
  "GetID n = node_id n"

text \<open>\<open>Node.Equal\<close>: the other node is a pointer, \<open>None\<close> is nil.\<close>

fun Node_Equal :: "'v node \<Rightarrow> 'v node option \<Rightarrow> bool" where
  "Node_Equal n None = False"
| "Node_Equal n (Some other) = (node_id n = node_id other)"

subsection \<open>Edge\<close>

record 'v edge =
  startNodeID :: string
  endNodeID :: string
  kind :: string
  edge_properties :: "'v properties"

definition NewEdge ::
  "string \<Rightarrow> string \<Rightarrow> string \<Rightarrow> 'v properties option \<Rightarrow> error + 'v edge" where
  "NewEdge s e k p =
     (if s = '''' then Inl (Error ''start node ID cannot be empty'')
      else if e = '''' then Inl (Error ''end node ID cannot be empty'')
      else if k = '''' then Inl (Error ''edge kind cannot be empty'')
      else Inr \<lparr> startNodeID = s, endNodeID = e, kind = k,
                 edge_properties = (case p of None \<Rightarrow> NewProperties | Some q \<Rightarrow> q) \<rparr>)"

definition GetStartNodeID :: "'v edge \<Rightarrow> string" where
  "GetStartNodeID e = startNodeID e"

definition GetEndNodeID :: "'v edge \<Rightarrow> string" where
  "GetEndNodeID e = endNodeID e"

definition GetKind :: "'v edge \<Rightarrow> string" where
  "GetKind e = kind e"

text \<open>\<open>Edge.Equal\<close>: the other edge is a pointer, \<open>None\<close> is nil.\<close>

fun Edge_Equal :: "'v edge \<Rightarrow> 'v edge option \<Rightarrow> bool" where
  "Edge_Equal e None = False"
| "Edge_Equal e (Some other) =
     (startNodeID e = startNodeID other \<and> endNodeID e = endNodeID other \<and> kind e = kind other)"

subsection \<open>OpenGraph\<close>

record 'v opengraph =
  nodes :: "string \<rightharpoonup> 'v node"
  edges :: "'v edge list"
  sourceKind :: string

definition NewOpenGraph :: "string \<Rightarrow> 'v opengraph" where
  "NewOpenGraph sk = \<lparr> nodes = Map.empty, edges = [], sourceKind = sk \<rparr>"

section \<open>Mutators\<close>

definition AddEdgeWithoutValidation :: "'v opengraph \<Rightarrow> 'v edge \<Rightarrow> bool \<times> 'v opengraph" where
  "AddEdgeWithoutValidation g e = (True, g\<lparr>edges := edges g @ [e]\<rparr>)"

text \<open>The duplicate check of \<open>AddEdge\<close>: the loop returns at the first stored edge equal to the new one.\<close>

fun has_duplicate :: "'v edge list \<Rightarrow> 'v edge \<Rightarrow> bool" where
  "has_duplicate [] new = False"
| "has_duplicate (e # es) new = (if Edge_Equal e (Some new) then True else has_duplicate es new)"

definition AddEdge :: "'v opengraph \<Rightarrow> 'v edge \<Rightarrow> bool \<times> 'v opengraph" where
  "AddEdge g e =
     (if nodes g (GetStartNodeID e) = None then (False, g)
      else if nodes g (GetEndNodeID e) = None then (False, g)
      else if has_duplicate (edges g) e then (False, g)
      else AddEdgeWithoutValidation g e)"

definition AddNodeWithoutValidation :: "'v opengraph \<Rightarrow> 'v node \<Rightarrow> bool \<times> 'v opengraph" where
  "AddNodeWithoutValidation g n = (True, g\<lparr>nodes := (nodes g)(GetID n \<mapsto> n)\<rparr>)"

text \<open>
  \<open>AddNode\<close> changes the node it is given (it may add the source kind) before it stores
  it, so the model returns the node as the caller sees it afterwards, too.
\<close>

definition AddNode :: "'v opengraph \<Rightarrow> 'v node \<Rightarrow> bool \<times> 'v opengraph \<times> 'v node" where
  "AddNode g n =
     (if nodes g (GetID n) \<noteq> None then (False, g, n)
      else
        let n' = (if sourceKind g \<noteq> '''' \<and> \<not> HasKind n (sourceKind g)
                  then AddKind n (sourceKind g) else n);
            (ok, g') = AddNodeWithoutValidation g n'
        in (ok, g', n'))"

definition RemoveNodeByID :: "'v opengraph \<Rightarrow> string \<Rightarrow> bool \<times> 'v opengraph" where
  "RemoveNodeByID g i =
     (if nodes g i = None then (False, g)
      else (True, g\<lparr> nodes := (nodes g)(i := None),
                     edges := filter (\<lambda>e. GetStartNodeID e \<noteq> i \<and> GetEndNodeID e \<noteq> i) (edges g) \<rparr>))"

section \<open>Queries and path enumeration\<close>

text \<open>
  A Go slice is either nil or holds a sequence; \<open>append\<close> to a nil slice allocates one,
  \<open>range\<close> over a nil slice runs zero times and \<open>len\<close> of it is zero.
\<close>

type_synonym 'a slice = "'a list option"

definition go_append :: "'a slice \<Rightarrow> 'a \<Rightarrow> 'a slice" where
  "go_append s x = (case s of None \<Rightarrow> Some [x] | Some l \<Rightarrow> Some (l @ [x]))"

definition elems :: "'a slice \<Rightarrow> 'a list" where
  "elems s = (case s of None \<Rightarrow> [] | Some l \<Rightarrow> l)"

definition len :: "'a slice \<Rightarrow> nat" where
  "len s = length (elems s)"

definition GetEdgesFromNode :: "'v opengraph \<Rightarrow> string \<Rightarrow> 'v edge slice" where
  "GetEdgesFromNode g i =
     foldl (\<lambda>acc e. if GetStartNodeID e = i then go_append acc e else acc) None (edges g)"

definition GetEdgesToNode :: "'v opengraph \<Rightarrow> string \<Rightarrow> 'v edge slice" where
  "GetEdgesToNode g i =
     foldl (\<lambda>acc e. if GetEndNodeID e = i then go_append acc e else acc) None (edges g)"

definition GetNodeCount :: "'v opengraph \<Rightarrow> nat" where
  "GetNodeCount g = card (dom (nodes g))"

definition GetEdgeCount :: "'v opengraph \<Rightarrow> nat" where
  "GetEdgeCount g = length (edges g)"

text \<open>
  The state of the search in \<open>FindPaths\<close>: the paths found so far (a slice that starts
  nil), the set of ids whose \<open>visited\<close> entry is true, and the queue of (id, path) pairs.
\<close>

type_synonym bfs_state = "string list slice \<times> string set \<times> (string \<times> string list) list"

text \<open>The body of the inner loop, for one outgoing edge of the current node.\<close>

definition visit :: "string \<Rightarrow> string list \<Rightarrow> bfs_state \<Rightarrow> 'v edge \<Rightarrow> bfs_state" where
  "visit endID cpath st e =
     (case st of (paths, visited, queue) \<Rightarrow>
        let nextID = GetEndNodeID e in
        if nextID \<notin> visited then
          let newPath = cpath @ [nextID] in
          if nextID = endID then (go_append paths newPath, visited, queue)
          else (paths, insert nextID visited, queue @ [(nextID, newPath)])
        else (paths, visited, queue))"

text \<open>
  The outer loop runs while the queue is not empty and the path at its head has at most
  \<open>maxDepth\<close> ids. Every round takes one entry off the queue, and an entry is only added
  for an end id of an edge that was not visited before, which bounds the number of rounds.
\<close>

function bfs_loop :: "'v opengraph \<Rightarrow> string \<Rightarrow> int \<Rightarrow> bfs_state \<Rightarrow> string list slice" where
  "bfs_loop g endID maxDepth (paths, visited, []) = paths"
| "bfs_loop g endID maxDepth (paths, visited, (cid, cpath) # rest) =
     (if int (length cpath) \<le> maxDepth
      then bfs_loop g endID maxDepth
             (foldl (visit endID cpath) (paths, visited, rest) (elems (GetEdgesFromNode g cid)))
      else paths)"
  by pat_completeness auto
termination
proof (relation "measure (\<lambda>(g, endID, maxDepth, (paths, visited, queue)).
          2 * card (endNodeID ` set (edges g) - visited) + length queue)", goal_cases)
  case 1
  show ?case by simp
next
  case (2 g endID maxDepth paths visited cid cpath rest)
  define E where "E = endNodeID ` set (edges g)"
  have fin: "finite E" by (simp add: E_def)
  have step: "\<And>(st :: bfs_state) (e :: 'a edge). endNodeID e \<in> E \<Longrightarrow>
      (case visit endID cpath st e of (p', v', q') \<Rightarrow> 2 * card (E - v') + length q')
      \<le> (case st of (p, v, q) \<Rightarrow> 2 * card (E - v) + length q)"
  proof -
    fix st :: bfs_state and e :: "'a edge"
    assume mem: "endNodeID e \<in> E"
    obtain p v q where st: "st = (p, v, q)" by (cases st) auto
    show "(case visit endID cpath st e of (p', v', q') \<Rightarrow> 2 * card (E - v') + length q')
      \<le> (case st of (p, v, q) \<Rightarrow> 2 * card (E - v) + length q)"
    proof (cases "endNodeID e \<in> v")
      case True
      then show ?thesis by (simp add: st visit_def GetEndNodeID_def)
    next
      case False
      have "endNodeID e \<in> E - v" using mem False by simp
      then have "card (E - insert (endNodeID e) v) < card (E - v)"
        using fin by (metis Diff_insert card_Diff1_less finite_Diff)
      then show ?thesis using False by (simp add: st visit_def GetEndNodeID_def Let_def)
    qed
  qed
  have fold: "\<And>(st :: bfs_state). set es \<subseteq> set (edges g) \<Longrightarrow>
      (case foldl (visit endID cpath) st es of (p', v', q') \<Rightarrow> 2 * card (E - v') + length q')
      \<le> (case st of (p, v, q) \<Rightarrow> 2 * card (E - v) + length q)" for es :: "'a edge list"
  proof (induction es)
    case Nil
    then show ?case by simp
  next
    case (Cons e es)
    have "endNodeID e \<in> E" using Cons.prems by (simp add: E_def)
    from step[OF this, of st] Cons.IH[of "visit endID cpath st e"] Cons.prems
    show ?case by simp
  qed
  have sub: "elems (foldl (\<lambda>acc e. if GetStartNodeID e = cid then go_append acc e else acc) a xs)
      = elems a @ filter (\<lambda>e. GetStartNodeID e = cid) xs" for a :: "'a edge slice" and xs
    by (induction xs arbitrary: a) (simp_all add: go_append_def elems_def split: option.splits)
  have "set (elems (GetEdgesFromNode g cid)) \<subseteq> set (edges g)"
    by (simp add: GetEdgesFromNode_def sub) (simp add: elems_def)
  from fold[OF this, of "(paths, visited, rest)"]
  show ?case by (auto simp: E_def split: prod.splits)
qed

definition FindPaths :: "'v opengraph \<Rightarrow> string \<Rightarrow> string \<Rightarrow> int \<Rightarrow> string list slice" where
  "FindPaths g startID endID maxDepth =
     (if nodes g startID = None then None
      else if nodes g endID = None then None
      else if startID = endID then Some [[startID]]
      else bfs_loop g endID maxDepth (None, {startID}, [(startID, [startID])]))"

declare bfs_loop.simps [simp del]

text \<open>
  A path of the graph is a non-empty sequence of ids in which every id is joined to the
  next by an edge, in the direction of the edge. \<open>path_ok\<close> is a path without
  repetition between two given ids; \<open>bfs_inv\<close> is what holds of the state of the search
  before every round of its loop.
\<close>

fun is_path :: "'v opengraph \<Rightarrow> string list \<Rightarrow> bool" where
  "is_path g [] = False"
| "is_path g [x] = True"
| "is_path g (x # y # r) =
     ((\<exists>e \<in> set (edges g). startNodeID e = x \<and> endNodeID e = y) \<and> is_path g (y # r))"

definition path_ok :: "'v opengraph \<Rightarrow> string \<Rightarrow> string \<Rightarrow> string list \<Rightarrow> bool" where
  "path_ok g s t p \<longleftrightarrow> p \<noteq> [] \<and> hd p = s \<and> last p = t \<and> distinct p \<and> is_path g p"

definition bfs_inv :: "'v opengraph \<Rightarrow> string \<Rightarrow> string \<Rightarrow> int \<Rightarrow> bfs_state \<Rightarrow> bool" where
  "bfs_inv g s t d st \<longleftrightarrow>
     (case st of (paths, visited, queue) \<Rightarrow>
        s \<in> visited \<and> t \<notin> visited \<and>
        (\<forall>(i, p) \<in> set queue. path_ok g s i p \<and> set p \<subseteq> visited) \<and>
        (\<forall>p \<in> set (elems paths). path_ok g s t p \<and> int (length p) \<le> d + 1) \<and>
        paths \<noteq> Some [])"

section \<open>Export\<close>

text \<open>
  \<open>ToDict\<close> and \<open>ExportJSON\<close> build Go values of type \<open>map[string]interface{}\<close>
  and hand them to \<open>json.MarshalIndent\<close>. The values that occur are strings, property
  values, slices and maps with string keys (\<open>gval\<close>).

  A Go string is a sequence of bytes, here a list of \<open>char\<close>, and need not be valid
  UTF-8. The encoder of \<open>encoding/json\<close> writes a string, and a key of a map, through
  \<open>appendString\<close>: it reads the string with \<open>utf8.DecodeRuneInString\<close> and writes
  the replacement character U+FFFD (the bytes EF BF BD) for every byte at which no valid
  encoding starts. \<open>acceptRange\<close> is the table of \<open>unicode/utf8\<close> that gives, for a
  first byte, the length of the encoding and the range of the second byte;
  \<open>DecodeRuneInString\<close> returns the length of the encoding at the head of the string
  and \<open>None\<close> for the result \<open>(RuneError, 1)\<close>. \<open>ValidString\<close> is
  \<open>utf8.ValidString\<close>.
\<close>

definition acceptRange :: "nat \<Rightarrow> (nat \<times> nat \<times> nat) option" where
  "acceptRange b =
     (if 0xC2 \<le> b \<and> b \<le> 0xDF then Some (2, 0x80, 0xBF)
      else if b = 0xE0 then Some (3, 0xA0, 0xBF)
      else if 0xE1 \<le> b \<and> b \<le> 0xEC then Some (3, 0x80, 0xBF)
      else if b = 0xED then Some (3, 0x80, 0x9F)
      else if 0xEE \<le> b \<and> b \<le> 0xEF then Some (3, 0x80, 0xBF)
      else if b = 0xF0 then Some (4, 0x90, 0xBF)
      else if 0xF1 \<le> b \<and> b \<le> 0xF3 then Some (4, 0x80, 0xBF)
      else if b = 0xF4 then Some (4, 0x80, 0x8F)
      else None)"

definition continuation :: "char \<Rightarrow> bool" where
  "continuation c \<longleftrightarrow> 0x80 \<le> (of_char c :: nat) \<and> (of_char c :: nat) \<le> 0xBF"

definition DecodeRuneInString :: "string \<Rightarrow> nat option" where
  "DecodeRuneInString s =
     (case s of
        [] \<Rightarrow> None
      | s0 # r \<Rightarrow>
          if (of_char s0 :: nat) < 0x80 then Some 1
          else (case acceptRange (of_char s0) of
                  None \<Rightarrow> None
                | Some (sz, lo, hi) \<Rightarrow>
                    if length s < sz then None
                    else if (of_char (s ! 1) :: nat) < lo \<or> hi < (of_char (s ! 1) :: nat) then None
                    else if sz \<le> 2 then Some 2
                    else if \<not> continuation (s ! 2) then None
                    else if sz \<le> 3 then Some 3
                    else if \<not> continuation (s ! 3) then None
                    else Some 4))"

definition replacement :: string where
  "replacement = [CHR 0xEF, CHR 0xBF, CHR 0xBD]"

fun appendString :: "string \<Rightarrow> string" where
  "appendString [] = []"
| "appendString (c # s) =
     (case DecodeRuneInString (c # s) of
        None \<Rightarrow> replacement @ appendString s
      | Some n \<Rightarrow> c # take (n - 1) s @ appendString (drop (n - 1) s))"

fun ValidString :: "string \<Rightarrow> bool" where
  "ValidString [] = True"
| "ValidString (c # s) =
     (case DecodeRuneInString (c # s) of
        None \<Rightarrow> False
      | Some n \<Rightarrow> ValidString (drop (n - 1) s))"

text \<open>
  A JSON document is modelled by the value it denotes (\<open>json\<close>): a string by its bytes,
  a number by mantissa and decimal exponent, an object by its members in the order in
  which they are written, so that an object can hold a name twice. The indentation and
  the escapes of the text are not modelled. The encoder writes the entries of a map in
  the order of their keys (compared byte by byte, before \<open>appendString\<close> is applied to
  them): \<open>members\<close>. How a property value is encoded is the parameter \<open>enc\<close>, which is
  \<open>None\<close> where \<open>encoding/json\<close> reports an error. A nil slice encodes as
  \<open>null\<close>, any other slice as an array.
\<close>

datatype json =
    JNull
  | JBool bool
  | JNumber int int
  | JString string
  | JArray "json list"
  | JObject "(string \<times> json) list"

datatype 'v gval =
    GString string
  | GValue 'v
  | GSlice "'v gval list option"
  | GMap "string \<Rightarrow> 'v gval option"

text \<open>The entries of an encoded map, unless one of them failed.\<close>

definition those_map :: "('k \<rightharpoonup> 'a option) \<Rightarrow> ('k \<rightharpoonup> 'a) option" where
  "those_map r =
     (if \<exists>k. r k = Some None then None
      else Some (\<lambda>k. case r k of Some (Some j) \<Rightarrow> Some j | _ \<Rightarrow> None))"

definition members :: "(string \<rightharpoonup> 'a) \<Rightarrow> (string \<times> 'a) list" where
  "members r = map (\<lambda>k. (appendString k, the (r k))) (sorted_list_of_set (dom r))"

primrec marshal :: "('v \<Rightarrow> json option) \<Rightarrow> 'v gval \<Rightarrow> json option" where
  "marshal enc (GString s) = Some (JString (appendString s))"
| "marshal enc (GValue v) = enc v"
| "marshal enc (GSlice s) =
     (case map_option (map (marshal enc)) s of
        None \<Rightarrow> Some JNull
      | Some rs \<Rightarrow> map_option JArray (those rs))"
| "marshal enc (GMap m) =
     map_option (\<lambda>r. JObject (members r)) (those_map (map_option (marshal enc) \<circ> m))"

definition props_gval :: "'v properties \<Rightarrow> 'v gval" where
  "props_gval p = GMap (map_option GValue \<circ> p)"

definition Node_ToDict :: "'v node \<Rightarrow> (string \<rightharpoonup> 'v gval)" where
  "Node_ToDict n =
     [ ''id'' \<mapsto> GString (node_id n),
       ''kinds'' \<mapsto> GSlice (Some (map GString (kinds n))),
       ''properties'' \<mapsto> props_gval (GetAllProperties (node_properties n)) ]"

text \<open>\<open>len(props) > 0\<close> for a map: it has a key.\<close>

definition Edge_ToDict :: "'v edge \<Rightarrow> (string \<rightharpoonup> 'v gval)" where
  "Edge_ToDict e =
     (let edgeDict =
            [ ''kind'' \<mapsto> GString (kind e),
              ''start'' \<mapsto> GMap [ ''value'' \<mapsto> GString (startNodeID e),
                                    ''match_by'' \<mapsto> GString ''id'' ],
              ''end'' \<mapsto> GMap [ ''value'' \<mapsto> GString (endNodeID e),
                                  ''match_by'' \<mapsto> GString ''id'' ] ];
          props = Properties_ToDict (edge_properties e)
      in if dom props \<noteq> {} then edgeDict(''properties'' \<mapsto> props_gval props) else edgeDict)"

text \<open>
  \<open>range\<close> over the node map visits every key once, in an order the language leaves
  open: the order is the parameter \<open>ks\<close> of \<open>ExportJSON\<close>, and \<open>range_order\<close>
  says that it is one of the map. Both slices are made with \<open>make\<close>, so they are not nil.
\<close>

definition range_order :: "('k \<rightharpoonup> 'a) \<Rightarrow> 'k list \<Rightarrow> bool" where
  "range_order m ks \<longleftrightarrow> distinct ks \<and> set ks = dom m"

definition ExportJSON ::
  "('v \<Rightarrow> json option) \<Rightarrow> string list \<Rightarrow> 'v opengraph \<Rightarrow> bool \<Rightarrow> error + json" where
  "ExportJSON enc ks g includeMetadata =
     (let nodesData =
            foldl (\<lambda>acc k. case nodes g k of
                               None \<Rightarrow> acc
                             | Some n \<Rightarrow> go_append acc (GMap (Node_ToDict n)))
                  (Some []) ks;
          graphContent = [ ''nodes'' \<mapsto> GSlice nodesData ];
          edgesData = foldl (\<lambda>acc e. go_append acc (GMap (Edge_ToDict e))) (Some []) (edges g);
          graphContent = graphContent(''edges'' \<mapsto> GSlice edgesData);
          graphData = [ ''graph'' \<mapsto> GMap graphContent ];
          graphData =
            (if includeMetadata \<and> sourceKind g \<noteq> ''''
             then graphData(''metadata'' \<mapsto> GMap [ ''source_kind'' \<mapsto> GString (sourceKind g) ])
             else graphData)
      in case marshal enc (GMap graphData) of
           None \<Rightarrow> Inl MarshalError
         | Some doc \<Rightarrow> Inr doc)"

section \<open>Import\<close>

text \<open>
  Reading a document: \<open>field\<close> is the member of an object with a given name. Where an
  object holds a name twice the later member counts, as in the decoder of
  \<open>encoding/json\<close>.
\<close>

definition object_map :: "(string \<times> json) list \<Rightarrow> (string \<rightharpoonup> json)" where
  "object_map ms = map_of (rev ms)"

definition as_string :: "json option \<Rightarrow> string option" where
  "as_string j = (case j of Some (JString s) \<Rightarrow> Some s | _ \<Rightarrow> None)"

definition as_array :: "json option \<Rightarrow> json list option" where
  "as_array j = (case j of Some (JArray xs) \<Rightarrow> Some xs | _ \<Rightarrow> None)"

definition as_object :: "json option \<Rightarrow> (string \<rightharpoonup> json) option" where
  "as_object j = (case j of Some (JObject ms) \<Rightarrow> Some (object_map ms) | _ \<Rightarrow> None)"

definition field :: "json \<Rightarrow> string \<Rightarrow> json option" where
  "field j k = (case j of JObject ms \<Rightarrow> object_map ms k | _ \<Rightarrow> None)"

text \<open>
  Modelled from the spec: \<open>FromJSON\<close>, the import that the tests call, is not among the
  sources. The spec makes it the structural inverse of the export: it reads the nodes
  first and registers them, then the edges (registering an edge needs both of its end
  points), then takes the source kind from the metadata if there is one. Nodes and edges
  are built with \<open>NewNode\<close> and \<open>NewEdge\<close>, the only constructors of their packages, and
  registered with \<open>AddNode\<close> and \<open>AddEdge\<close>, whose results are not looked at; a record
  of another shape, or one that the constructor rejects, ends the import with an error.
  How a JSON value becomes a property value is the parameter \<open>dec\<close>.
\<close>

definition node_of_json :: "(json \<Rightarrow> 'v) \<Rightarrow> json \<Rightarrow> error + 'v node" where
  "node_of_json dec j =
     (case as_string (field j ''id'') of
        None \<Rightarrow> Inl (Error ''invalid node'')
      | Some i \<Rightarrow>
     (case Option.bind (as_array (field j ''kinds'')) (\<lambda>xs. those (map (\<lambda>x. as_string (Some x)) xs)) of
        None \<Rightarrow> Inl (Error ''invalid node'')
      | Some ks \<Rightarrow>
     (case as_object (field j ''properties'') of
        None \<Rightarrow> Inl (Error ''invalid node'')
      | Some ps \<Rightarrow> NewNode i (Some ks) (Some (map_option dec \<circ> ps)))))"

text \<open>Modelled from the spec: an edge record is read back field by field, the
  \<open>properties\<close> key being optional as in \<open>Edge.ToDict\<close>.\<close>

definition edge_of_json :: "(json \<Rightarrow> 'v) \<Rightarrow> json \<Rightarrow> error + 'v edge" where
  "edge_of_json dec j =
     (case as_string (field j ''kind'') of
        None \<Rightarrow> Inl (Error ''invalid edge'')
      | Some k \<Rightarrow>
     (case Option.bind (field j ''start'') (\<lambda>s. as_string (field s ''value'')) of
        None \<Rightarrow> Inl (Error ''invalid edge'')
      | Some s \<Rightarrow>
     (case Option.bind (field j ''end'') (\<lambda>e. as_string (field e ''value'')) of
        None \<Rightarrow> Inl (Error ''invalid edge'')
      | Some e \<Rightarrow>
     (case field j ''properties'' of
        None \<Rightarrow> NewEdge s e k None
      | Some pj \<Rightarrow>
          (case as_object (Some pj) of
             None \<Rightarrow> Inl (Error ''invalid edge'')
           | Some ps \<Rightarrow> NewEdge s e k (Some (map_option dec \<circ> ps)))))))"

text \<open>Modelled from the spec: the node records are registered in document order.\<close>

fun import_nodes :: "(json \<Rightarrow> 'v) \<Rightarrow> 'v opengraph \<Rightarrow> json list \<Rightarrow> error + 'v opengraph" where
  "import_nodes dec g [] = Inr g"
| "import_nodes dec g (j # js) =
     (case node_of_json dec j of
        Inl err \<Rightarrow> Inl err
      | Inr n \<Rightarrow> import_nodes dec (fst (snd (AddNode g n))) js)"

text \<open>Modelled from the spec: the edge records are registered in document order.\<close>

fun import_edges :: "(json \<Rightarrow> 'v) \<Rightarrow> 'v opengraph \<Rightarrow> json list \<Rightarrow> error + 'v opengraph" where
  "import_edges dec g [] = Inr g"
| "import_edges dec g (j # js) =
     (case edge_of_json dec j of
        Inl err \<Rightarrow> Inl err
      | Inr e \<Rightarrow> import_edges dec (snd (AddEdge g e)) js)"

text \<open>Modelled from the spec: the source kind is taken from the metadata when present.\<close>

definition import_metadata :: "'v opengraph \<Rightarrow> json \<Rightarrow> 'v opengraph" where
  "import_metadata g doc =
     (case Option.bind (field doc ''metadata'') (\<lambda>md. as_string (field md ''source_kind'')) of
        None \<Rightarrow> g
      | Some sk \<Rightarrow> g\<lparr>sourceKind := sk\<rparr>)"

text \<open>Modelled from the spec: \<open>FromJSON\<close> reads nodes, then edges, then the metadata.\<close>

definition FromJSON :: "(json \<Rightarrow> 'v) \<Rightarrow> 'v opengraph \<Rightarrow> json \<Rightarrow> error + 'v opengraph" where
  "FromJSON dec g doc =
     (case field doc ''graph'' of
        None \<Rightarrow> Inl (Error ''invalid document'')
      | Some content \<Rightarrow>
     (case as_array (field content ''nodes'') of
        None \<Rightarrow> Inl (Error ''invalid document'')
      | Some ns \<Rightarrow>
     (case import_nodes dec g ns of
        Inl err \<Rightarrow> Inl err
      | Inr g1 \<Rightarrow>
     (case as_array (field content ''edges'') of
        None \<Rightarrow> Inl (Error ''invalid document'')
      | Some es \<Rightarrow>
     (case import_edges dec g1 es of
        Inl err \<Rightarrow> Inl err
      | Inr g2 \<Rightarrow> Inr (import_metadata g2 doc))))))"


section \<open>The graphs of the tests\<close>

text \<open>
  \<open>TestFindPaths\<close> builds a graph with source kind \<open>test\<close>, the nodes 1, 2 and 3 and
  the edges from 1 to 2 and from 2 to 3; the property values of the examples are numbers.
\<close>

definition test_node :: "string \<Rightarrow> string list \<Rightarrow> nat node" where
  "test_node i ks = \<lparr> node_id = i, kinds = ks, node_properties = NewProperties \<rparr>"

definition test_edge :: "string \<Rightarrow> string \<Rightarrow> nat properties \<Rightarrow> nat edge" where
  "test_edge s e p =
     \<lparr> startNodeID = s, endNodeID = e, kind = ''CONNECTS_TO'', edge_properties = p \<rparr>"

definition test_nodes :: "nat opengraph" where
  "test_nodes =
     (let g = NewOpenGraph ''test'';
          g = fst (snd (AddNode g (test_node ''1'' [''node1''])));
          g = fst (snd (AddNode g (test_node ''2'' [''node2''])));
          g = fst (snd (AddNode g (test_node ''3'' [''node3''])))
      in g)"

definition test_graph :: "nat opengraph" where
  "test_graph =
     (let g = test_nodes;
          g = snd (AddEdge g (test_edge ''1'' ''2'' NewProperties));
          g = snd (AddEdge g (test_edge ''2'' ''3'' NewProperties))
      in g)"

section \<open>The exported document, and the graphs that the checked mutators build\<close>

text \<open>
  The document that \<open>ExportJSON\<close> produces, written out: \<open>node_json\<close> and
  \<open>edge_json\<close> are the encodings of the two kinds of record, \<open>export_doc\<close> is the
  whole document for the nodes in the order of the iteration. \<open>encodable_props\<close> says
  that the encoder accepts every value of a property map, \<open>encodable\<close> and
  \<open>encodable_graph\<close> that it accepts every property value of the nodes and edges.
\<close>

definition encodable_props :: "('v \<Rightarrow> json option) \<Rightarrow> 'v properties \<Rightarrow> bool" where
  "encodable_props enc p \<longleftrightarrow> (\<forall>k v. p k = Some v \<longrightarrow> enc v \<noteq> None)"

definition props_json :: "('v \<Rightarrow> json option) \<Rightarrow> 'v properties \<Rightarrow> json" where
  "props_json enc p = JObject (members (\<lambda>k. Option.bind (p k) enc))"

definition node_json :: "('v \<Rightarrow> json option) \<Rightarrow> 'v node \<Rightarrow> json" where
  "node_json enc n =
     JObject [ (''id'', JString (appendString (node_id n))),
               (''kinds'', JArray (map (\<lambda>k. JString (appendString k)) (kinds n))),
               (''properties'', props_json enc (node_properties n)) ]"

definition endpoint_json :: "string \<Rightarrow> json" where
  "endpoint_json i = JObject [ (''match_by'', JString ''id''), (''value'', JString (appendString i)) ]"

definition edge_json :: "('v \<Rightarrow> json option) \<Rightarrow> 'v edge \<Rightarrow> json" where
  "edge_json enc e =
     JObject ([ (''end'', endpoint_json (endNodeID e)),
                (''kind'', JString (appendString (kind e))) ] @
              (if dom (edge_properties e) \<noteq> {}
               then [ (''properties'', props_json enc (edge_properties e)) ] else []) @
              [ (''start'', endpoint_json (startNodeID e)) ])"

definition export_doc :: "('v \<Rightarrow> json option) \<Rightarrow> 'v node list \<Rightarrow> 'v opengraph \<Rightarrow> bool \<Rightarrow> json" where
  "export_doc enc ns g includeMetadata =
     JObject ((''graph'', JObject [ (''edges'', JArray (map (edge_json enc) (edges g))),
                                    (''nodes'', JArray (map (node_json enc) ns)) ]) #
              (if includeMetadata \<and> sourceKind g \<noteq> ''''
               then [ (''metadata'', JObject [ (''source_kind'', JString (appendString (sourceKind g))) ]) ]
               else []))"

definition encodable :: "('v \<Rightarrow> json option) \<Rightarrow> 'v node list \<Rightarrow> 'v opengraph \<Rightarrow> bool" where
  "encodable enc ns g \<longleftrightarrow>
     (\<forall>n \<in> set ns. encodable_props enc (node_properties n)) \<and>
     (\<forall>e \<in> set (edges g). encodable_props enc (edge_properties e))"

definition encodable_graph :: "('v \<Rightarrow> json option) \<Rightarrow> 'v opengraph \<Rightarrow> bool" where
  "encodable_graph enc g \<longleftrightarrow>
     (\<forall>k n. nodes g k = Some n \<longrightarrow> encodable_props enc (node_properties n)) \<and>
     (\<forall>e \<in> set (edges g). encodable_props enc (edge_properties e))"

text \<open>
  \<open>triple\<close> is what \<open>Edge.Equal\<close> compares. \<open>well_formed\<close> collects what holds of a
  graph whose nodes come from \<open>NewNode\<close> and whose edges come from \<open>NewEdge\<close> and were
  added with \<open>AddEdge\<close>: a node is stored under its own id, which is not empty; every
  edge has a kind and starts and ends at a registered node; no two edges have the same
  triple. \<open>AddEdgeWithoutValidation\<close> can leave it. \<open>keys_match\<close> is its first part.
  \<open>valid_strings\<close> says that the strings which the two equalities and the source kind
  rest on are valid UTF-8: the ids of the nodes, the start, end and kind of every edge,
  and the source kind.
\<close>

definition triple :: "'v edge \<Rightarrow> string \<times> string \<times> string" where
  "triple e = (startNodeID e, endNodeID e, kind e)"

definition keys_match :: "'v opengraph \<Rightarrow> bool" where
  "keys_match g \<longleftrightarrow> (\<forall>k n. nodes g k = Some n \<longrightarrow> node_id n = k)"

definition well_formed :: "'v opengraph \<Rightarrow> bool" where
  "well_formed g \<longleftrightarrow>
     (\<forall>k n. nodes g k = Some n \<longrightarrow> node_id n = k \<and> k \<noteq> '''') \<and>
     (\<forall>e \<in> set (edges g). startNodeID e \<in> dom (nodes g) \<and> endNodeID e \<in> dom (nodes g) \<and>
                             kind e \<noteq> '''') \<and>
     distinct (map triple (edges g))"

definition valid_strings :: "'v opengraph \<Rightarrow> bool" where
  "valid_strings g \<longleftrightarrow>
     (\<forall>k \<in> dom (nodes g). ValidString k) \<and>
     (\<forall>e \<in> set (edges g). ValidString (startNodeID e) \<and> ValidString (endNodeID e) \<and>
                             ValidString (kind e)) \<and>
     ValidString (sourceKind g)"

text \<open>
  For the examples: numbers as property values with their encoding and decoding; a
  graph with an edge between two ids that were never registered, built with
  \<open>AddEdgeWithoutValidation\<close>; and a graph with two nodes whose ids are the single
  bytes FF and FE, built with \<open>AddNode\<close>.
\<close>

definition enc_nat :: "nat \<Rightarrow> json option" where
  "enc_nat v = Some (JNumber (int v) 0)"

definition dec_nat :: "json \<Rightarrow> nat" where
  "dec_nat j = (case j of JNumber m e \<Rightarrow> nat m | _ \<Rightarrow> 0)"

definition dangling_graph :: "nat opengraph" where
  "dangling_graph =
     snd (AddEdgeWithoutValidation (NewOpenGraph ''Base'') (test_edge ''1'' ''2'' NewProperties))"

definition bytes_graph :: "nat opengraph" where
  "bytes_graph =
     (let g = NewOpenGraph ''Base'';
          g = fst (snd (AddNode g (test_node [CHR 0xFF] [])));
          g = fst (snd (AddNode g (test_node [CHR 0xFE] [])))
      in g)"

section \<open>Properties of the mutators\<close>

lemma HasKind_loop_iff: "HasKind_loop ks k \<longleftrightarrow> k \<in> set ks"
  by (induction ks) auto

lemma has_duplicate_iff:
  "has_duplicate es new \<longleftrightarrow>
     (\<exists>x \<in> set es. startNodeID x = startNodeID new \<and> endNodeID x = endNodeID new \<and> kind x = kind new)"
  by (induction es) auto

lemma test_nodes_eq:
  "test_nodes =
     \<lparr> nodes = [ ''1'' \<mapsto> test_node ''1'' [''node1'', ''test''],
                 ''2'' \<mapsto> test_node ''2'' [''node2'', ''test''],
                 ''3'' \<mapsto> test_node ''3'' [''node3'', ''test''] ],
       edges = [], sourceKind = ''test'' \<rparr>"
  by (simp add: test_nodes_def NewOpenGraph_def AddNode_def AddNodeWithoutValidation_def
      AddKind_def HasKind_def GetID_def test_node_def Let_def)

lemma test_graph_eq:
  "test_graph =
     \<lparr> nodes = [ ''1'' \<mapsto> test_node ''1'' [''node1'', ''test''],
                 ''2'' \<mapsto> test_node ''2'' [''node2'', ''test''],
                 ''3'' \<mapsto> test_node ''3'' [''node3'', ''test''] ],
       edges = [test_edge ''1'' ''2'' NewProperties, test_edge ''2'' ''3'' NewProperties],
       sourceKind = ''test'' \<rparr>"
  by (simp add: test_graph_def test_nodes_eq AddEdge_def AddEdgeWithoutValidation_def
      GetStartNodeID_def GetEndNodeID_def test_edge_def Let_def)

text \<open>
  C3. \<open>AddEdge\<close> fails, and leaves the graph as it is, when the start id or the end id of
  the edge is not a key of the node map or when a stored edge has the same start, end and
  kind, whatever the properties of the two edges are; in every other case it succeeds and
  the edge list is the old one followed by the new edge.
\<close>

theorem AddEdge_result:
  "AddEdge g e =
     (if startNodeID e \<notin> dom (nodes g) \<or> endNodeID e \<notin> dom (nodes g) \<or>
         (\<exists>x \<in> set (edges g). startNodeID x = startNodeID e \<and> endNodeID x = endNodeID e \<and>
                                  kind x = kind e)
      then (False, g)
      else (True, g\<lparr>edges := edges g @ [e]\<rparr>))"
  by (auto simp: AddEdge_def AddEdgeWithoutValidation_def GetStartNodeID_def GetEndNodeID_def
      has_duplicate_iff)

theorem AddEdge_result_witness:
  "AddEdge test_graph (test_edge ''1'' ''2'' [''weight'' \<mapsto> 10]) = (False, test_graph) \<and>
   AddEdge test_graph (test_edge ''1'' ''4'' NewProperties) = (False, test_graph) \<and>
   AddEdge test_graph (test_edge ''1'' ''3'' NewProperties) =
     (True, test_graph\<lparr>edges := edges test_graph @ [test_edge ''1'' ''3'' NewProperties]\<rparr>)"
  using AddEdge_result [of test_graph "test_edge ''1'' ''2'' [''weight'' \<mapsto> 10]"]
    AddEdge_result [of test_graph "test_edge ''1'' ''4'' NewProperties"]
    AddEdge_result [of test_graph "test_edge ''1'' ''3'' NewProperties"]
  by (simp add: test_graph_eq test_edge_def)

text \<open>
  C4. When the graph already has a node under the id of the node that is added,
  \<open>AddNode\<close> returns failure, the graph that it returns is the graph it was given (so the
  stored node, the node map and the edge list are what they were), and the node that was
  passed in is not changed either.
\<close>

theorem AddNode_existing_id:
  assumes "nodes g (node_id n) = Some m"
  shows "AddNode g n = (False, g, n)"
  using assms by (simp add: AddNode_def GetID_def)

theorem AddNode_existing_id_witness:
  "nodes test_graph (node_id (test_node ''2'' [''other''])) = Some (test_node ''2'' [''node2'', ''test'']) \<and>
   AddNode test_graph (test_node ''2'' [''other'']) = (False, test_graph, test_node ''2'' [''other''])"
proof -
  have h: "nodes test_graph (node_id (test_node ''2'' [''other'']))
             = Some (test_node ''2'' [''node2'', ''test''])"
    by (simp add: test_graph_eq test_node_def)
  from AddNode_existing_id [OF h] h show ?thesis by simp
qed

text \<open>
  C6. \<open>RemoveNodeByID\<close> fails and returns the graph unchanged when the id is not a key of
  the node map. Otherwise it succeeds: the id is no longer a key, the other nodes stay,
  the edge list keeps, in their order, exactly the edges that neither start nor end at the
  id, so no edge that is left refers to it.
\<close>

theorem RemoveNodeByID_result:
  "(nodes g i = None \<longrightarrow> RemoveNodeByID g i = (False, g)) \<and>
   (nodes g i \<noteq> None \<longrightarrow>
      (\<exists>g'. RemoveNodeByID g i = (True, g') \<and>
            nodes g' = (nodes g)(i := None) \<and>
            edges g' = filter (\<lambda>e. startNodeID e \<noteq> i \<and> endNodeID e \<noteq> i) (edges g) \<and>
            sourceKind g' = sourceKind g \<and>
            (\<forall>e \<in> set (edges g'). startNodeID e \<noteq> i \<and> endNodeID e \<noteq> i)))"
  by (simp add: RemoveNodeByID_def GetStartNodeID_def GetEndNodeID_def)

theorem RemoveNodeByID_result_witness:
  "RemoveNodeByID test_graph ''4'' = (False, test_graph) \<and>
   fst (RemoveNodeByID test_graph ''2'') \<and>
   nodes (snd (RemoveNodeByID test_graph ''2'')) ''2'' = None \<and>
   edges (snd (RemoveNodeByID test_graph ''2'')) = []"
  using RemoveNodeByID_result [of test_graph "''4''"] RemoveNodeByID_result [of test_graph "''2''"]
  by (auto simp: test_graph_eq test_edge_def)

text \<open>
  C5. In a graph with a non-empty source kind, a successful \<open>AddNode\<close> stores the node
  under its id with the source kind among its kinds: the source kind is appended once when
  the node did not carry it, and the kinds are left as they were when it did. \<open>AddNode\<close>
  never adds an occurrence to a node that has one, so the node holds the source kind
  exactly once whenever it held it at most once before; kinds that \<open>NewNode\<close> was given
  with a repeated label keep the repetition.
\<close>

theorem AddNode_source_kind:
  assumes "sourceKind g \<noteq> ''''" and "AddNode g n = (True, g', n')"
  shows "sourceKind g \<in> set (kinds n') \<and>
         nodes g' (node_id n) = Some n' \<and>
         kinds n' = (if sourceKind g \<in> set (kinds n) then kinds n else kinds n @ [sourceKind g]) \<and>
         count_list (kinds n') (sourceKind g) = max 1 (count_list (kinds n) (sourceKind g)) \<and>
         (if count_list (kinds n) (sourceKind g) \<le> 1
          then count_list (kinds n') (sourceKind g) = 1
          else kinds n' = kinds n)"
proof -
  let ?sk = "sourceKind g"
  from assms(2) have absent: "nodes g (node_id n) = None"
    by (auto simp: AddNode_def GetID_def split: if_splits)
  show ?thesis
  proof (cases "?sk \<in> set (kinds n)")
    case True
    then have pos: "0 < count_list (kinds n) ?sk"
      using count_list_0_iff [of "kinds n" ?sk] by simp
    from True assms absent have "n' = n" "g' = g\<lparr>nodes := (nodes g)(node_id n \<mapsto> n)\<rparr>"
      by (auto simp: AddNode_def AddNodeWithoutValidation_def GetID_def HasKind_def
          HasKind_loop_iff Let_def)
    with True pos show ?thesis by auto
  next
    case False
    then have zero: "count_list (kinds n) ?sk = 0"
      by (simp add: count_list_0_iff)
    from False assms absent
    have "n' = n\<lparr>kinds := kinds n @ [?sk]\<rparr>"
      "g' = g\<lparr>nodes := (nodes g)(node_id n \<mapsto> n\<lparr>kinds := kinds n @ [?sk]\<rparr>)\<rparr>"
      by (auto simp: AddNode_def AddNodeWithoutValidation_def AddKind_def GetID_def HasKind_def
          HasKind_loop_iff Let_def)
    with False zero show ?thesis by simp
  qed
qed

theorem AddNode_source_kind_witness:
  "sourceKind (NewOpenGraph ''test'' :: nat opengraph) \<noteq> '''' \<and>
   AddNode (NewOpenGraph ''test'') (test_node ''1'' [''node1'']) =
     (True,
      \<lparr> nodes = [''1'' \<mapsto> test_node ''1'' [''node1'', ''test'']], edges = [], sourceKind = ''test'' \<rparr>,
      test_node ''1'' [''node1'', ''test'']) \<and>
   count_list (kinds (test_node ''1'' [''node1'', ''test''])) ''test'' = 1"
proof -
  have h1: "sourceKind (NewOpenGraph ''test'' :: nat opengraph) \<noteq> ''''"
    by (simp add: NewOpenGraph_def)
  have h2: "AddNode (NewOpenGraph ''test'') (test_node ''1'' [''node1'']) =
     (True,
      \<lparr> nodes = [''1'' \<mapsto> test_node ''1'' [''node1'', ''test'']], edges = [], sourceKind = ''test'' \<rparr>,
      test_node ''1'' [''node1'', ''test''])"
    by (simp add: NewOpenGraph_def AddNode_def AddNodeWithoutValidation_def AddKind_def
        HasKind_def GetID_def test_node_def Let_def)
  from AddNode_source_kind [OF h1 h2] h1 h2 show ?thesis
    by (simp add: NewOpenGraph_def test_node_def)
qed

text \<open>
  The claim C5 as it is written also says that the kinds hold no duplicate of the source
  kind when the node already carried it. \<open>NewNode\<close> takes the kinds it is given, so a
  node can carry the source kind twice before it is added, and \<open>AddNode\<close> leaves it so.
\<close>

theorem AddNode_source_kind_counterexample:
  "NewNode ''x'' (Some [''Base'', ''Base'']) None = Inr (test_node ''x'' [''Base'', ''Base'']) \<and>
   AddNode (NewOpenGraph ''Base'') (test_node ''x'' [''Base'', ''Base'']) =
     (True,
      \<lparr> nodes = [''x'' \<mapsto> test_node ''x'' [''Base'', ''Base'']], edges = [], sourceKind = ''Base'' \<rparr>,
      test_node ''x'' [''Base'', ''Base'']) \<and>
   count_list (kinds (test_node ''x'' [''Base'', ''Base''])) ''Base'' = 2 \<and>
   \<not> distinct (kinds (test_node ''x'' [''Base'', ''Base'']))"
  by (simp add: NewNode_def NewOpenGraph_def AddNode_def AddNodeWithoutValidation_def AddKind_def
      HasKind_def GetID_def test_node_def Let_def)

text \<open>
  C8. The record that \<open>Edge.ToDict\<close> builds has the key \<open>properties\<close> exactly when the
  edge has a property. Then the value under the key is the property map of the edge, entry
  by entry; with no property the key is absent, not bound to an empty map.
\<close>

theorem Edge_ToDict_properties:
  "(''properties'' \<in> dom (Edge_ToDict e) \<longleftrightarrow> dom (edge_properties e) \<noteq> {}) \<and>
   Edge_ToDict e ''properties'' =
     (if dom (edge_properties e) = {} then None
      else Some (GMap (\<lambda>k. map_option GValue (edge_properties e k))))"
  by (auto simp: Edge_ToDict_def Properties_ToDict_def GetAllProperties_def props_gval_def
      Let_def comp_def)

theorem Edge_ToDict_properties_witness:
  "''properties'' \<notin> dom (Edge_ToDict (test_edge ''1'' ''2'' NewProperties)) \<and>
   Edge_ToDict (test_edge ''1'' ''2'' [''weight'' \<mapsto> 10]) ''properties'' =
     Some (GMap [''weight'' \<mapsto> GValue 10])"
  using Edge_ToDict_properties [of "test_edge ''1'' ''2'' NewProperties"]
    Edge_ToDict_properties [of "test_edge ''1'' ''2'' [''weight'' \<mapsto> 10]"]
  by (auto simp: test_edge_def NewProperties_def fun_eq_iff)

text \<open>
  C9. For a registered node \<open>x\<close> and any depth bound, \<open>FindPaths\<close> from \<open>x\<close> to \<open>x\<close>
  returns exactly one path, the path that holds \<open>x\<close> alone.
\<close>

theorem FindPaths_same_node:
  assumes "nodes g x \<noteq> None"
  shows "FindPaths g x x k = Some [[x]]"
  using assms by (simp add: FindPaths_def)

theorem FindPaths_same_node_witness:
  "nodes test_graph ''2'' \<noteq> None \<and> FindPaths test_graph ''2'' ''2'' 0 = Some [[''2'']]"
proof -
  have h: "nodes test_graph ''2'' \<noteq> None"
    by (simp add: test_graph_eq)
  from FindPaths_same_node [OF h, of 0] h show ?thesis by simp
qed


section \<open>Properties of the path enumeration\<close>

lemma is_path_snoc:
  "is_path g p \<Longrightarrow> \<exists>e \<in> set (edges g). startNodeID e = last p \<and> endNodeID e = y \<Longrightarrow>
   is_path g (p @ [y])"
  by (induction g p rule: is_path.induct) auto

lemma elems_go_append: "elems (go_append s x) = elems s @ [x]"
  by (simp add: elems_def go_append_def split: option.splits)

lemma go_append_not_empty: "go_append s x \<noteq> Some []"
  by (simp add: go_append_def split: option.splits)

lemma visit_inv:
  assumes inv: "bfs_inv g s t d st"
    and cur: "path_ok g s cid cpath" "set cpath \<subseteq> fst (snd st)" "int (length cpath) \<le> d"
    and e: "e \<in> set (edges g)" "startNodeID e = cid"
  shows "bfs_inv g s t d (visit t cpath st e) \<and> fst (snd st) \<subseteq> fst (snd (visit t cpath st e))"
proof -
  obtain paths visited queue where st: "st = (paths, visited, queue)" by (cases st) auto
  let ?n = "endNodeID e"
  show ?thesis
  proof (cases "?n \<in> visited")
    case True
    then show ?thesis using inv by (simp add: st visit_def GetEndNodeID_def)
  next
    case False
    have new: "path_ok g s ?n (cpath @ [?n])"
      using cur e False unfolding path_ok_def st
      by (auto intro!: is_path_snoc)
    show ?thesis
    proof (cases "?n = t")
      case True
      with False new inv cur show ?thesis
        by (auto simp: st visit_def GetEndNodeID_def Let_def bfs_inv_def elems_go_append
            go_append_not_empty)
    next
      case neq: False
      with False new inv cur show ?thesis
        by (auto simp: st visit_def GetEndNodeID_def Let_def bfs_inv_def)
    qed
  qed
qed

lemma fold_visit_inv:
  assumes "bfs_inv g s t d st" "path_ok g s cid cpath" "set cpath \<subseteq> fst (snd st)"
    "int (length cpath) \<le> d" "\<forall>e \<in> set es. e \<in> set (edges g) \<and> startNodeID e = cid"
  shows "bfs_inv g s t d (foldl (visit t cpath) st es)"
  using assms
proof (induction es arbitrary: st)
  case Nil
  then show ?case by simp
next
  case (Cons e es)
  from Cons.prems have e: "e \<in> set (edges g)" "startNodeID e = cid" by auto
  from visit_inv[OF Cons.prems(1,2,3,4) e]
  have 1: "bfs_inv g s t d (visit t cpath st e)"
    and 2: "fst (snd st) \<subseteq> fst (snd (visit t cpath st e))" by auto
  from 2 Cons.prems(3) have 3: "set cpath \<subseteq> fst (snd (visit t cpath st e))" by blast
  from Cons.IH[OF 1 Cons.prems(2) 3 Cons.prems(4)] Cons.prems(5)
  show ?case by simp
qed

lemma elems_GetEdgesFromNode:
  "elems (GetEdgesFromNode g i) = filter (\<lambda>e. startNodeID e = i) (edges g)"
proof -
  have "elems (foldl (\<lambda>acc e. if GetStartNodeID e = i then go_append acc e else acc) a xs)
      = elems a @ filter (\<lambda>e. startNodeID e = i) xs" for a :: "'a edge slice" and xs
    by (induction xs arbitrary: a) (simp_all add: elems_go_append GetStartNodeID_def)
  then show ?thesis by (simp add: GetEdgesFromNode_def elems_def)
qed

lemma bfs_loop_inv:
  "bfs_inv g s t d st \<Longrightarrow>
   (\<forall>p \<in> set (elems (bfs_loop g t d st)). path_ok g s t p \<and> int (length p) \<le> d + 1) \<and>
   bfs_loop g t d st \<noteq> Some []"
proof (induction g t d st rule: bfs_loop.induct)
  case (1 g endID maxDepth paths visited)
  then show ?case by (simp add: bfs_inv_def bfs_loop.simps)
next
  case (2 g endID maxDepth paths visited cid cpath rest)
  show ?case
  proof (cases "int (length cpath) \<le> maxDepth")
    case True
    from "2.prems" have cur: "path_ok g s cid cpath" "set cpath \<subseteq> visited"
      by (auto simp: bfs_inv_def)
    from "2.prems" have inv': "bfs_inv g s endID maxDepth (paths, visited, rest)"
      by (auto simp: bfs_inv_def)
    have "bfs_inv g s endID maxDepth
            (foldl (visit endID cpath) (paths, visited, rest) (elems (GetEdgesFromNode g cid)))"
      by (rule fold_visit_inv[OF inv' cur(1) _ True]) (use cur in \<open>auto simp: elems_GetEdgesFromNode\<close>)
    from "2.IH"[OF True this] True show ?thesis by (simp add: bfs_loop.simps)
  next
    case False
    with "2.prems" show ?thesis by (simp add: bfs_inv_def bfs_loop.simps)
  qed
qed

lemma FindPaths_paths:
  assumes "nodes g s \<noteq> None" "nodes g t \<noteq> None" "s \<noteq> t"
  shows "(\<forall>p \<in> set (elems (FindPaths g s t d)). path_ok g s t p \<and> int (length p) \<le> d + 1) \<and>
         FindPaths g s t d \<noteq> Some []"
proof -
  have "bfs_inv g s t d (None, {s}, [(s, [s])])"
    using assms by (simp add: bfs_inv_def path_ok_def elems_def)
  moreover have "FindPaths g s t d = bfs_loop g t d (None, {s}, [(s, [s])])"
    using assms by (auto simp add: FindPaths_def)
  ultimately show ?thesis using bfs_loop_inv by metis
qed


lemma FindPaths_test_graph:
  "FindPaths test_graph ''1'' ''3'' 2 = Some [[''1'', ''2'', ''3'']]"
  by (simp add: FindPaths_def test_graph_eq bfs_loop.simps visit_def GetEdgesFromNode_def
      GetStartNodeID_def GetEndNodeID_def go_append_def elems_def test_edge_def Let_def)

lemma FindPaths_test_graph_short:
  "FindPaths test_graph ''1'' ''3'' 1 = None"
  by (simp add: FindPaths_def test_graph_eq bfs_loop.simps visit_def GetEdgesFromNode_def
      GetStartNodeID_def GetEndNodeID_def go_append_def elems_def test_edge_def Let_def)

text \<open>
  C10. When start and end are two different registered nodes, every path that
  \<open>FindPaths\<close> returns begins with the start id, ends with the end id, holds no id twice
  and has at most \<open>maxDepth + 1\<close> ids.
\<close>

theorem FindPaths_paths_simple:
  assumes "nodes g s \<noteq> None" and "nodes g t \<noteq> None" and "s \<noteq> t"
    and "p \<in> set (elems (FindPaths g s t d))"
  shows "p \<noteq> [] \<and> hd p = s \<and> last p = t \<and> distinct p \<and> int (length p) \<le> d + 1"
  using FindPaths_paths [OF assms(1,2,3), of d] assms(4) by (auto simp: path_ok_def)

theorem FindPaths_paths_simple_witness:
  "FindPaths test_graph ''1'' ''3'' 2 = Some [[''1'', ''2'', ''3'']] \<and>
   hd [''1'', ''2'', ''3''] = ''1'' \<and> last [''1'', ''2'', ''3''] = ''3'' \<and>
   distinct [''1'', ''2'', ''3''] \<and> int (length [''1'', ''2'', ''3'']) \<le> 2 + 1"
proof -
  have n1: "nodes test_graph ''1'' \<noteq> None" and n3: "nodes test_graph ''3'' \<noteq> None"
    by (simp_all add: test_graph_eq)
  have ne: "''1'' \<noteq> ''3''" by simp
  have mem: "[''1'', ''2'', ''3''] \<in> set (elems (FindPaths test_graph ''1'' ''3'' 2))"
    by (simp add: FindPaths_test_graph elems_def)
  from FindPaths_paths_simple [OF n1 n3 ne mem] FindPaths_test_graph show ?thesis by simp
qed

text \<open>
  C2. When start and end are two different registered nodes and no sequence of ids that
  follows the edges leads from the start to the end with at most \<open>maxDepth + 1\<close> ids,
  \<open>FindPaths\<close> returns a result without paths. The result is the nil slice that the
  search starts with: it is the value that \<open>FindPaths\<close> returns for an id that is not
  registered, too.
\<close>

theorem FindPaths_no_path:
  assumes "nodes g s \<noteq> None" and "nodes g t \<noteq> None" and "s \<noteq> t"
    and "\<forall>p. p \<noteq> [] \<and> hd p = s \<and> last p = t \<and> is_path g p \<longrightarrow> \<not> int (length p) \<le> d + 1"
  shows "len (FindPaths g s t d) = 0 \<and> FindPaths g s t d = None \<and>
         (nodes g u = None \<longrightarrow> FindPaths g u v d = FindPaths g s t d \<and>
                                  FindPaths g v u d = FindPaths g s t d)"
proof -
  note found = FindPaths_paths [OF assms(1,2,3), of d]
  have empty: "elems (FindPaths g s t d) = []"
  proof (cases "elems (FindPaths g s t d)")
    case Nil
    then show ?thesis .
  next
    case (Cons p ps)
    then have "p \<in> set (elems (FindPaths g s t d))" by simp
    with found have ok: "path_ok g s t p" and short: "int (length p) \<le> d + 1" by auto
    from ok have "p \<noteq> [] \<and> hd p = s \<and> last p = t \<and> is_path g p"
      by (simp add: path_ok_def)
    with assms(4) have "\<not> int (length p) \<le> d + 1" by blast
    with short show ?thesis by simp
  qed
  from found have "FindPaths g s t d \<noteq> Some []" by simp
  with empty have none: "FindPaths g s t d = None"
    by (cases "FindPaths g s t d") (simp_all add: elems_def)
  then show ?thesis by (simp add: len_def elems_def FindPaths_def)
qed

theorem FindPaths_no_path_witness:
  "len (FindPaths test_graph ''1'' ''3'' 1) = 0 \<and> FindPaths test_graph ''1'' ''3'' 1 = None \<and>
   nodes test_graph ''4'' = None \<and> FindPaths test_graph ''1'' ''4'' 1 = None"
proof -
  have n1: "nodes test_graph ''1'' \<noteq> None" and n3: "nodes test_graph ''3'' \<noteq> None"
    and n4: "nodes test_graph ''4'' = None"
    by (simp_all add: test_graph_eq)
  have ne: "''1'' \<noteq> ''3''" by simp
  have no: "\<forall>p. p \<noteq> [] \<and> hd p = ''1'' \<and> last p = ''3'' \<and> is_path test_graph p
              \<longrightarrow> \<not> int (length p) \<le> 1 + 1"
  proof (intro allI impI)
    fix p :: "string list"
    assume a: "p \<noteq> [] \<and> hd p = ''1'' \<and> last p = ''3'' \<and> is_path test_graph p"
    show "\<not> int (length p) \<le> 1 + 1"
    proof (cases p)
      case Nil
      with a show ?thesis by simp
    next
      case (Cons x q)
      show ?thesis
      proof (cases q)
        case Nil
        with Cons a show ?thesis by auto
      next
        case (Cons y r)
        show ?thesis
        proof (cases r)
          case Nil
          with \<open>p = x # q\<close> \<open>q = y # r\<close> a show ?thesis
            by (auto simp: test_graph_eq test_edge_def)
        next
          case (Cons z r')
          with \<open>p = x # q\<close> \<open>q = y # r\<close> show ?thesis by simp
        qed
      qed
    qed
  qed
  from FindPaths_no_path [OF n1 n3 ne no, of "''4''" "''1''"] n4 show ?thesis by auto
qed

text \<open>
  The claim C2 as it is written has the result without paths differ from the result for an
  unknown id. In the graph of the three test nodes without edges both are the nil slice.
\<close>

theorem FindPaths_no_path_counterexample:
  "nodes test_nodes ''1'' \<noteq> None \<and> nodes test_nodes ''3'' \<noteq> None \<and> edges test_nodes = [] \<and>
   nodes test_nodes ''4'' = None \<and>
   FindPaths test_nodes ''1'' ''3'' 2 = None \<and> FindPaths test_nodes ''1'' ''4'' 2 = None"
  by (simp add: FindPaths_def test_nodes_eq bfs_loop.simps GetEdgesFromNode_def elems_def)


section \<open>Properties of the export and of the import\<close>

lemma appendString_valid: "ValidString s \<Longrightarrow> appendString s = s"
  by (induction s rule: appendString.induct) (auto split: option.splits)

lemma length_appendString: "length s \<le> length (appendString s)"
proof (induction s rule: appendString.induct)
  case 1
  then show ?case by simp
next
  case (2 c s)
  show ?case
  proof (cases "DecodeRuneInString (c # s)")
    case None
    with 2(1) show ?thesis by (simp add: replacement_def)
  next
    case (Some n)
    from 2(2) [OF Some] have "length (drop (n - 1) s) \<le> length (appendString (drop (n - 1) s))" .
    with Some show ?thesis by simp
  qed
qed

lemma appendString_fixed: "appendString s = s \<longleftrightarrow> ValidString s"
proof
  show "appendString s = s \<Longrightarrow> ValidString s"
  proof (induction s rule: appendString.induct)
    case 1
    then show ?case by simp
  next
    case (2 c s)
    show ?case
    proof (cases "DecodeRuneInString (c # s)")
      case None
      with 2(3) have "length (replacement @ appendString s) = length (c # s)" by simp
      with length_appendString [of s] show ?thesis by (simp add: replacement_def)
    next
      case (Some n)
      with 2(3) have "take (n - 1) s @ appendString (drop (n - 1) s) = s" by simp
      then have "take (n - 1) s @ appendString (drop (n - 1) s) = take (n - 1) s @ drop (n - 1) s"
        by (simp only: append_take_drop_id)
      then have "appendString (drop (n - 1) s) = drop (n - 1) s" by (simp only: same_append_eq)
      from 2(2) [OF Some this] Some show ?thesis by simp
    qed
  qed
qed (rule appendString_valid)

lemma appendString_keys [simp]:
  "appendString ''id'' = ''id''"
  "appendString ''kinds'' = ''kinds''"
  "appendString ''properties'' = ''properties''"
  "appendString ''kind'' = ''kind''"
  "appendString ''start'' = ''start''"
  "appendString ''end'' = ''end''"
  "appendString ''value'' = ''value''"
  "appendString ''match_by'' = ''match_by''"
  "appendString ''nodes'' = ''nodes''"
  "appendString ''edges'' = ''edges''"
  "appendString ''graph'' = ''graph''"
  "appendString ''metadata'' = ''metadata''"
  "appendString ''source_kind'' = ''source_kind''"
  by (simp_all add: DecodeRuneInString_def)

declare appendString.simps [simp del]

lemma appendString_bytes:
  "appendString [CHR 0xFF] = [CHR 0xEF, CHR 0xBF, CHR 0xBD]"
  "appendString [CHR 0xFE] = [CHR 0xEF, CHR 0xBF, CHR 0xBD]"
  by (simp_all add: appendString.simps DecodeRuneInString_def acceptRange_def replacement_def)

lemma marshal_GMap:
  "marshal enc (GMap m) =
     (if \<exists>k v. m k = Some v \<and> marshal enc v = None then None
      else Some (JObject (members (\<lambda>k. Option.bind (m k) (marshal enc)))))"
proof -
  have 1: "(\<exists>k. (map_option (marshal enc) \<circ> m) k = Some None)
           \<longleftrightarrow> (\<exists>k v. m k = Some v \<and> marshal enc v = None)"
    by auto
  have 2: "(\<lambda>k. case (map_option (marshal enc) \<circ> m) k of Some (Some j) \<Rightarrow> Some j | _ \<Rightarrow> None)
           = (\<lambda>k. Option.bind (m k) (marshal enc))"
    by (rule ext) (simp split: option.splits)
  show ?thesis
    unfolding marshal.simps those_map_def 1 2 by simp
qed

lemma members_map_of:
  assumes "sorted (map fst kvs)" and "distinct (map fst kvs)"
  shows "members (map_of kvs) = map (\<lambda>(k, j). (appendString k, j)) kvs"
proof -
  have d: "dom (map_of kvs) = set (map fst kvs)" by (simp add: dom_map_of_conv_image_fst)
  have s: "sorted_list_of_set (set (map fst kvs)) = map fst kvs"
    using assms by (rule sorted_list_of_set.idem_if_sorted_distinct)
  have "map (\<lambda>k. (appendString k, the (map_of kvs k))) (map fst kvs)
          = map (\<lambda>(k, j). (appendString k, j)) kvs"
    using assms(2) by (induction kvs) (auto simp: rev_image_eqI)
  then show ?thesis unfolding members_def d s .
qed

lemma marshal_GMap_list:
  assumes "sorted (map fst kvs)" and "distinct (map fst kvs)"
  shows "marshal enc (GMap (map_of kvs)) =
           (if \<exists>v \<in> snd ` set kvs. marshal enc v = None then None
            else Some (JObject (map (\<lambda>(k, v). (appendString k, the (marshal enc v))) kvs)))"
proof -
  have 1: "(\<exists>k v. map_of kvs k = Some v \<and> marshal enc v = None)
           \<longleftrightarrow> (\<exists>v \<in> snd ` set kvs. marshal enc v = None)"
  proof
    assume "\<exists>k v. map_of kvs k = Some v \<and> marshal enc v = None"
    then obtain k v where "map_of kvs k = Some v" "marshal enc v = None" by blast
    then have "(k, v) \<in> set kvs" by (simp add: map_of_SomeD)
    then have "v \<in> snd ` set kvs" by force
    with \<open>marshal enc v = None\<close> show "\<exists>v \<in> snd ` set kvs. marshal enc v = None" by blast
  next
    assume "\<exists>v \<in> snd ` set kvs. marshal enc v = None"
    then obtain k v where kv: "(k, v) \<in> set kvs" "marshal enc v = None" by auto
    with assms(2) have "map_of kvs k = Some v" by simp
    with kv show "\<exists>k v. map_of kvs k = Some v \<and> marshal enc v = None" by blast
  qed
  let ?js = "map (\<lambda>(k, v). (k, the (marshal enc v))) kvs"
  have fst: "map fst ?js = map fst kvs" by (induction kvs) auto
  have 2: "(\<lambda>k. Option.bind (map_of kvs k) (marshal enc)) = map_of ?js"
    if "\<not> (\<exists>v \<in> snd ` set kvs. marshal enc v = None)"
  proof (rule ext)
    fix k
    from that show "Option.bind (map_of kvs k) (marshal enc) = map_of ?js k"
      by (induction kvs) auto
  qed
  have 3: "members (map_of ?js) = map (\<lambda>(k, j). (appendString k, j)) ?js"
    using assms by (intro members_map_of) (simp_all only: fst)
  have 4: "map (\<lambda>(k, j). (appendString k, j)) ?js
             = map (\<lambda>(k, v). (appendString k, the (marshal enc v))) kvs"
    by (induction kvs) auto
  show ?thesis
    unfolding marshal_GMap 1 using 2 3 4 by simp
qed

lemma those_map_list:
  "those (map f xs) = (if \<exists>x \<in> set xs. f x = None then None else Some (map (the \<circ> f) xs))"
  by (induction xs) (auto split: option.splits)

lemma marshal_GSlice:
  "marshal enc (GSlice (Some xs)) =
     (if \<exists>x \<in> set xs. marshal enc x = None then None
      else Some (JArray (map (the \<circ> marshal enc) xs)))"
  by (simp add: those_map_list)

lemma marshal_props:
  "marshal enc (props_gval p) =
     (if encodable_props enc p then Some (props_json enc p) else None)"
proof -
  have 1: "(\<exists>k v. (map_option GValue \<circ> p) k = Some v \<and> marshal enc v = None)
           \<longleftrightarrow> \<not> encodable_props enc p"
  proof
    assume "\<exists>k v. (map_option GValue \<circ> p) k = Some v \<and> marshal enc v = None"
    then obtain k v where "(map_option GValue \<circ> p) k = Some v" "marshal enc v = None"
      by blast
    then obtain z where "p k = Some z" "enc z = None" by auto
    then show "\<not> encodable_props enc p" by (auto simp: encodable_props_def)
  next
    assume "\<not> encodable_props enc p"
    then obtain k z where "p k = Some z" "enc z = None"
      by (auto simp: encodable_props_def)
    then have "(map_option GValue \<circ> p) k = Some (GValue z) \<and> marshal enc (GValue z) = None"
      by simp
    then show "\<exists>k v. (map_option GValue \<circ> p) k = Some v \<and> marshal enc v = None"
      by blast
  qed
  have 2: "(\<lambda>k. Option.bind ((map_option GValue \<circ> p) k) (marshal enc)) = (\<lambda>k. Option.bind (p k) enc)"
  proof (rule ext)
    fix k show "Option.bind ((map_option GValue \<circ> p) k) (marshal enc) = Option.bind (p k) enc"
      by (cases "p k") simp_all
  qed
  show ?thesis
    unfolding props_gval_def marshal_GMap 1 2 props_json_def by simp
qed

lemma marshal_strings:
  "marshal enc (GSlice (Some (map GString ks)))
     = Some (JArray (map (\<lambda>k. JString (appendString k)) ks))"
  by (simp add: those_map_list comp_def)

declare marshal.simps(3,4) [simp del]

lemma Node_ToDict_list:
  "Node_ToDict n =
     map_of [ (''id'', GString (node_id n)),
              (''kinds'', GSlice (Some (map GString (kinds n)))),
              (''properties'', props_gval (node_properties n)) ]"
  by (rule ext) (simp add: Node_ToDict_def GetAllProperties_def)

lemma marshal_Node_ToDict:
  "marshal enc (GMap (Node_ToDict n)) =
     (if encodable_props enc (node_properties n) then Some (node_json enc n) else None)"
  unfolding Node_ToDict_list
  by (subst marshal_GMap_list)
    (simp_all add: marshal_props marshal_strings node_json_def)

lemma endpoint_list:
  "[ ''value'' \<mapsto> v, ''match_by'' \<mapsto> m ] = map_of [ (''match_by'', m), (''value'', v) ]"
  by (rule ext) simp

lemma marshal_endpoint:
  "marshal enc (GMap [ ''value'' \<mapsto> GString i, ''match_by'' \<mapsto> GString ''id'' ])
     = Some (endpoint_json i)"
  unfolding endpoint_list
  by (subst marshal_GMap_list) (simp_all add: endpoint_json_def)

lemma Edge_ToDict_list:
  "Edge_ToDict e =
     map_of ([ (''end'', GMap [ ''value'' \<mapsto> GString (endNodeID e), ''match_by'' \<mapsto> GString ''id'' ]),
               (''kind'', GString (kind e)) ] @
             (if dom (edge_properties e) \<noteq> {}
              then [ (''properties'', props_gval (edge_properties e)) ] else []) @
             [ (''start'', GMap [ ''value'' \<mapsto> GString (startNodeID e),
                                  ''match_by'' \<mapsto> GString ''id'' ]) ])"
  by (rule ext)
    (simp add: Edge_ToDict_def Properties_ToDict_def GetAllProperties_def Let_def)

lemma marshal_Edge_ToDict:
  "marshal enc (GMap (Edge_ToDict e)) =
     (if encodable_props enc (edge_properties e) then Some (edge_json enc e) else None)"
proof (cases "dom (edge_properties e) = {}")
  case True
  then have "encodable_props enc (edge_properties e)"
    by (auto simp: encodable_props_def)
  with True show ?thesis
    unfolding Edge_ToDict_list
    by (subst marshal_GMap_list) (simp_all add: marshal_endpoint edge_json_def)
next
  case False
  then show ?thesis
    unfolding Edge_ToDict_list
    by (subst marshal_GMap_list) (simp_all add: marshal_endpoint marshal_props edge_json_def)
qed

lemma marshal_dicts:
  assumes "\<And>x. marshal enc (GMap (f x)) = (if P x then Some (j x) else None)"
  shows "marshal enc (GSlice (Some (map (\<lambda>x. GMap (f x)) xs))) =
           (if \<forall>x \<in> set xs. P x then Some (JArray (map j xs)) else None)"
proof -
  have 1: "(\<exists>y \<in> set (map (\<lambda>x. GMap (f x)) xs). marshal enc y = None) \<longleftrightarrow> \<not> (\<forall>x \<in> set xs. P x)"
    using assms by auto
  have 2: "\<forall>x \<in> set xs. P x \<Longrightarrow>
           map (the \<circ> marshal enc) (map (\<lambda>x. GMap (f x)) xs) = map j xs"
    using assms by simp
  show ?thesis unfolding marshal_GSlice 1 using 2 by simp
qed

lemma nodesData_eq:
  "foldl (\<lambda>acc k. case m k of None \<Rightarrow> acc | Some n \<Rightarrow> go_append acc (f n)) (Some acc) ks
     = Some (acc @ map f (List.map_filter m ks))"
  by (induction ks arbitrary: acc) (simp_all add: go_append_def split: option.splits)

lemma edgesData_eq:
  "foldl (\<lambda>acc e. go_append acc (f e)) (Some acc) es = Some (acc @ map f es)"
  by (induction es arbitrary: acc) (simp_all add: go_append_def)

lemma content_list:
  "[ ''nodes'' \<mapsto> a, ''edges'' \<mapsto> b ] = map_of [ (''edges'', b), (''nodes'', a) ]"
  by (rule ext) simp

lemma marshal_content:
  "marshal enc (GMap [ ''nodes'' \<mapsto> a, ''edges'' \<mapsto> b ]) =
     (case marshal enc a of None \<Rightarrow> None
      | Some ja \<Rightarrow> (case marshal enc b of None \<Rightarrow> None
      | Some jb \<Rightarrow> Some (JObject [ (''edges'', jb), (''nodes'', ja) ])))"
  unfolding content_list
  by (subst marshal_GMap_list) (auto split: option.splits)

lemma top_list:
  "(if md then [ ''graph'' \<mapsto> c ](''metadata'' \<mapsto> m) else [ ''graph'' \<mapsto> c ])
     = map_of ((''graph'', c) # (if md then [ (''metadata'', m) ] else []))"
  by (rule ext) simp

lemma marshal_source_kind:
  "marshal enc (GMap [ ''source_kind'' \<mapsto> GString sk ])
     = Some (JObject [ (''source_kind'', JString (appendString sk)) ])"
proof -
  have "[ ''source_kind'' \<mapsto> GString sk ] = map_of [ (''source_kind'', GString sk :: 'a gval) ]"
    by (rule ext) simp
  then show ?thesis
    by (simp only:) (subst marshal_GMap_list, simp_all)
qed

lemma marshal_top:
  "marshal enc (GMap (if md then [ ''graph'' \<mapsto> c ](''metadata'' \<mapsto> GMap [ ''source_kind'' \<mapsto> GString sk ])
                      else [ ''graph'' \<mapsto> c ])) =
     (case marshal enc c of None \<Rightarrow> None
      | Some jc \<Rightarrow>
          Some (JObject ((''graph'', jc) #
                  (if md then [ (''metadata'', JObject [ (''source_kind'', JString (appendString sk)) ]) ]
                   else []))))"
  unfolding top_list
  by (subst marshal_GMap_list) (auto simp: marshal_source_kind split: option.splits)

lemma ExportJSON_eq:
  "ExportJSON enc ks g includeMetadata =
     (if encodable enc (List.map_filter (nodes g) ks) g
      then Inr (export_doc enc (List.map_filter (nodes g) ks) g includeMetadata)
      else Inl MarshalError)"
proof -
  let ?ns = "List.map_filter (nodes g) ks"
  have n: "marshal enc (GSlice (Some (map (\<lambda>n. GMap (Node_ToDict n)) ?ns))) =
        (if \<forall>n \<in> set ?ns. encodable_props enc (node_properties n)
         then Some (JArray (map (node_json enc) ?ns)) else None)"
    by (rule marshal_dicts) (rule marshal_Node_ToDict)
  have e: "marshal enc (GSlice (Some (map (\<lambda>e. GMap (Edge_ToDict e)) (edges g)))) =
        (if \<forall>e \<in> set (edges g). encodable_props enc (edge_properties e)
         then Some (JArray (map (edge_json enc) (edges g))) else None)"
    by (rule marshal_dicts) (rule marshal_Edge_ToDict)
  show ?thesis
    unfolding ExportJSON_def Let_def nodesData_eq edgesData_eq append_Nil marshal_top
      marshal_content n e
    by (simp add: encodable_def export_doc_def)
qed

lemma AddNode_eq:
  "AddNode g n =
     (if nodes g (node_id n) \<noteq> None then (False, g, n)
      else let n' = (if sourceKind g \<noteq> '''' \<and> sourceKind g \<notin> set (kinds n)
                     then n\<lparr>kinds := kinds n @ [sourceKind g]\<rparr> else n)
           in (True, g\<lparr>nodes := (nodes g)(node_id n \<mapsto> n')\<rparr>, n'))"
  by (simp add: AddNode_def AddNodeWithoutValidation_def AddKind_def HasKind_def
      HasKind_loop_iff GetID_def Let_def)

lemma has_duplicate_triple: "has_duplicate es e \<longleftrightarrow> triple e \<in> triple ` set es"
  by (induction es) (auto simp: triple_def)

lemma AddEdge_eq:
  "AddEdge g e =
     (if startNodeID e \<notin> dom (nodes g) \<or> endNodeID e \<notin> dom (nodes g) \<or>
         triple e \<in> triple ` set (edges g)
      then (False, g)
      else (True, g\<lparr>edges := edges g @ [e]\<rparr>))"
  by (auto simp: AddEdge_def AddEdgeWithoutValidation_def GetStartNodeID_def GetEndNodeID_def
      has_duplicate_triple)

lemma map_filter_range_order:
  assumes "range_order m ks"
  shows "set (List.map_filter m ks) = ran m" and "length (List.map_filter m ks) = card (dom m)"
    and "map f (List.map_filter m ks) = map (\<lambda>k. f (the (m k))) ks"
proof -
  from assms have d: "distinct ks" and s: "set ks = dom m" by (auto simp: range_order_def)
  have all: "\<forall>k \<in> set ks. m k \<noteq> None" using s by auto
  have eq: "List.map_filter m xs = map (\<lambda>k. the (m k)) xs" if "\<forall>k \<in> set xs. m k \<noteq> None" for xs
    using that by (induction xs) auto
  have "(\<lambda>k. the (m k)) ` dom m = ran m"
  proof (intro set_eqI iffI)
    fix y assume "y \<in> (\<lambda>k. the (m k)) ` dom m"
    then obtain k z where "m k = Some z" "y = the (m k)" by auto
    then show "y \<in> ran m" by (simp add: ranI)
  next
    fix y assume "y \<in> ran m"
    then obtain k where "m k = Some y" by (auto simp: ran_def)
    then have "k \<in> dom m" "y = the (m k)" by auto
    then show "y \<in> (\<lambda>k. the (m k)) ` dom m" by blast
  qed
  then show "set (List.map_filter m ks) = ran m"
    unfolding eq [OF all] using s by simp
  show "length (List.map_filter m ks) = card (dom m)"
    unfolding eq [OF all] using d s by (simp add: distinct_card [symmetric])
  show "map f (List.map_filter m ks) = map (\<lambda>k. f (the (m k))) ks"
    unfolding eq [OF all] by simp
qed

lemma those_strings:
  "those (map ((\<lambda>x. as_string (Some x)) \<circ> (\<lambda>k. JString (appendString k))) ks)
     = Some (map appendString ks)"
  by (induction ks) (simp_all add: as_string_def)

lemma node_json_fields:
  "field (node_json enc n) ''id'' = Some (JString (appendString (node_id n)))"
  "field (node_json enc n) ''kinds'' = Some (JArray (map (\<lambda>k. JString (appendString k)) (kinds n)))"
  "field (node_json enc n) ''properties'' = Some (props_json enc (node_properties n))"
  by (simp_all add: node_json_def field_def object_map_def)

lemma node_of_json_node_json:
  "node_of_json dec (node_json enc n) =
     NewNode (appendString (node_id n)) (Some (map appendString (kinds n)))
       (Some (map_option dec \<circ> object_map (members (\<lambda>k. Option.bind (node_properties n k) enc))))"
proof -
  have a: "as_string (field (node_json enc n) ''id'') = Some (appendString (node_id n))"
    by (simp add: node_json_fields as_string_def)
  have b: "Option.bind (as_array (field (node_json enc n) ''kinds''))
             (\<lambda>xs. those (map (\<lambda>x. as_string (Some x)) xs)) = Some (map appendString (kinds n))"
    by (simp add: node_json_fields as_array_def those_strings)
  have c: "as_object (field (node_json enc n) ''properties'')
             = Some (object_map (members (\<lambda>k. Option.bind (node_properties n k) enc)))"
    by (simp add: node_json_fields as_object_def props_json_def)
  show ?thesis unfolding node_of_json_def a b c by simp
qed

lemma endpoint_value: "as_string (field (endpoint_json i) ''value'') = Some (appendString i)"
  by (simp add: endpoint_json_def field_def object_map_def as_string_def)

lemma edge_json_fields:
  "field (edge_json enc e) ''kind'' = Some (JString (appendString (kind e)))"
  "field (edge_json enc e) ''start'' = Some (endpoint_json (startNodeID e))"
  "field (edge_json enc e) ''end'' = Some (endpoint_json (endNodeID e))"
  "field (edge_json enc e) ''properties'' =
     (if dom (edge_properties e) \<noteq> {} then Some (props_json enc (edge_properties e)) else None)"
  by (simp_all add: edge_json_def field_def object_map_def)

lemma edge_of_json_edge_json:
  "edge_of_json dec (edge_json enc e) =
     NewEdge (appendString (startNodeID e)) (appendString (endNodeID e)) (appendString (kind e))
       (if dom (edge_properties e) \<noteq> {}
        then Some (map_option dec \<circ> object_map (members (\<lambda>k. Option.bind (edge_properties e k) enc)))
        else None)"
proof -
  have a: "as_string (field (edge_json enc e) ''kind'') = Some (appendString (kind e))"
    by (simp add: edge_json_fields as_string_def)
  have b: "Option.bind (field (edge_json enc e) ''start'') (\<lambda>s. as_string (field s ''value''))
             = Some (appendString (startNodeID e))"
    by (simp add: edge_json_fields endpoint_value)
  have c: "Option.bind (field (edge_json enc e) ''end'') (\<lambda>s. as_string (field s ''value''))
             = Some (appendString (endNodeID e))"
    by (simp add: edge_json_fields endpoint_value)
  show ?thesis
    unfolding edge_of_json_def a b c edge_json_fields(4)
    by (simp add: as_object_def props_json_def)
qed

lemma AddNode_import:
  assumes "sourceKind g = ''''"
  shows "sourceKind (fst (snd (AddNode g n))) = ''''"
    and "edges (fst (snd (AddNode g n))) = edges g"
    and "dom (nodes (fst (snd (AddNode g n)))) = insert (node_id n) (dom (nodes g))"
    and "keys_match g \<Longrightarrow> keys_match (fst (snd (AddNode g n)))"
  using assms by (auto simp: AddNode_eq keys_match_def)

lemma import_nodes_ok:
  assumes "sourceKind g = ''''"
    and "\<forall>n \<in> set ns. node_id n \<noteq> '''' \<and> ValidString (node_id n)"
  shows "\<exists>g'. import_nodes dec g (map (node_json enc) ns) = Inr g' \<and>
              dom (nodes g') = dom (nodes g) \<union> node_id ` set ns \<and>
              edges g' = edges g \<and> sourceKind g' = '''' \<and>
              (keys_match g \<longrightarrow> keys_match g')"
  using assms
proof (induction ns arbitrary: g)
  case Nil
  then show ?case by simp
next
  case (Cons n ns)
  let ?n0 = "\<lparr> node_id = node_id n, kinds = map appendString (kinds n),
               node_properties =
                 map_option dec \<circ> object_map (members (\<lambda>k. Option.bind (node_properties n k) enc)) \<rparr>"
  let ?g1 = "fst (snd (AddNode g ?n0))"
  from Cons.prems have ne: "node_id n \<noteq> ''''" and va: "appendString (node_id n) = node_id n"
    by (simp_all add: appendString_valid)
  then have parse: "node_of_json dec (node_json enc n) = Inr ?n0"
    by (simp add: node_of_json_node_json NewNode_def)
  note step = AddNode_import [OF Cons.prems(1), of ?n0]
  from Cons.prems have rest: "\<forall>n \<in> set ns. node_id n \<noteq> '''' \<and> ValidString (node_id n)" by simp
  from Cons.IH [OF step(1) rest]
  obtain g' where g': "import_nodes dec ?g1 (map (node_json enc) ns) = Inr g'"
    "dom (nodes g') = dom (nodes ?g1) \<union> node_id ` set ns"
    "edges g' = edges ?g1" "sourceKind g' = ''''" "keys_match ?g1 \<longrightarrow> keys_match g'"
    by blast
  have "import_nodes dec g (map (node_json enc) (n # ns)) = Inr g'"
    using parse g'(1) by simp
  moreover have "dom (nodes g') = dom (nodes g) \<union> node_id ` set (n # ns)"
    using g'(2) step(3) by auto
  moreover have "edges g' = edges g" using g'(3) step(2) by simp
  moreover have "keys_match g \<longrightarrow> keys_match g'" using g'(5) step(4) by blast
  ultimately show ?case using g'(4) by blast
qed

lemma import_edges_ok:
  assumes "\<forall>e \<in> set es. startNodeID e \<in> dom (nodes g) \<and> endNodeID e \<in> dom (nodes g) \<and>
                          startNodeID e \<noteq> '''' \<and> endNodeID e \<noteq> '''' \<and> kind e \<noteq> '''' \<and>
                          ValidString (startNodeID e) \<and> ValidString (endNodeID e) \<and>
                          ValidString (kind e)"
    and "distinct (map triple (edges g @ es))"
  shows "\<exists>g'. import_edges dec g (map (edge_json enc) es) = Inr g' \<and>
              nodes g' = nodes g \<and> sourceKind g' = sourceKind g \<and>
              map triple (edges g') = map triple (edges g @ es)"
  using assms
proof (induction es arbitrary: g)
  case Nil
  then show ?case by simp
next
  case (Cons e es)
  let ?e0 = "\<lparr> startNodeID = startNodeID e, endNodeID = endNodeID e, kind = kind e,
               edge_properties =
                 (case (if dom (edge_properties e) \<noteq> {}
                        then Some (map_option dec \<circ>
                                   object_map (members (\<lambda>k. Option.bind (edge_properties e k) enc)))
                        else None) of None \<Rightarrow> NewProperties | Some q \<Rightarrow> q) \<rparr>"
  let ?g1 = "g\<lparr>edges := edges g @ [?e0]\<rparr>"
  from Cons.prems(1) have here: "startNodeID e \<in> dom (nodes g)" "endNodeID e \<in> dom (nodes g)"
    "startNodeID e \<noteq> ''''" "endNodeID e \<noteq> ''''" "kind e \<noteq> ''''"
    and va: "appendString (startNodeID e) = startNodeID e"
    "appendString (endNodeID e) = endNodeID e" "appendString (kind e) = kind e"
    by (simp_all add: appendString_valid)
  then have parse: "edge_of_json dec (edge_json enc e) = Inr ?e0"
    by (simp add: edge_of_json_edge_json NewEdge_def)
  have t0: "triple ?e0 = triple e" by (simp add: triple_def)
  from Cons.prems(2) have fresh: "triple e \<notin> triple ` set (edges g)" by auto
  have add: "snd (AddEdge g ?e0) = ?g1"
    using here fresh t0 by (simp add: AddEdge_eq)
  have 1: "\<forall>e \<in> set es. startNodeID e \<in> dom (nodes ?g1) \<and> endNodeID e \<in> dom (nodes ?g1) \<and>
                          startNodeID e \<noteq> '''' \<and> endNodeID e \<noteq> '''' \<and> kind e \<noteq> '''' \<and>
                          ValidString (startNodeID e) \<and> ValidString (endNodeID e) \<and>
                          ValidString (kind e)"
    using Cons.prems(1) by simp
  have 2: "distinct (map triple (edges ?g1 @ es))"
    using Cons.prems(2) t0 by simp
  from Cons.IH [OF 1 2]
  obtain g' where g': "import_edges dec ?g1 (map (edge_json enc) es) = Inr g'"
    "nodes g' = nodes ?g1" "sourceKind g' = sourceKind ?g1"
    "map triple (edges g') = map triple (edges ?g1 @ es)"
    by blast
  have "import_edges dec g (map (edge_json enc) (e # es)) = Inr g'"
    using parse add g'(1) by simp
  moreover have "map triple (edges g') = map triple (edges g @ e # es)"
    using g'(4) t0 by simp
  ultimately show ?case using g'(2,3) by auto
qed

lemma encodable_range_order:
  assumes "range_order (nodes g) ks"
  shows "encodable enc (List.map_filter (nodes g) ks) g \<longleftrightarrow> encodable_graph enc g"
  unfolding encodable_def encodable_graph_def map_filter_range_order(1) [OF assms]
  by (auto simp: ran_def)

lemma export_doc_fields:
  "field (export_doc enc ns g b) ''graph'' =
     Some (JObject [ (''edges'', JArray (map (edge_json enc) (edges g))),
                     (''nodes'', JArray (map (node_json enc) ns)) ])"
  "field (export_doc enc ns g b) ''metadata'' =
     (if b \<and> sourceKind g \<noteq> ''''
      then Some (JObject [ (''source_kind'', JString (appendString (sourceKind g))) ]) else None)"
  by (simp_all add: export_doc_def field_def object_map_def)

lemma content_fields:
  "field (JObject [ (''edges'', b), (''nodes'', a) ]) ''nodes'' = Some a"
  "field (JObject [ (''edges'', b), (''nodes'', a) ]) ''edges'' = Some b"
  by (simp_all add: field_def object_map_def)

lemma source_kind_field:
  "as_string (field (JObject [ (''source_kind'', JString s) ]) ''source_kind'') = Some s"
  by (simp add: field_def object_map_def as_string_def)

lemma import_metadata_export_doc:
  "sourceKind g2 = '''' \<Longrightarrow>
   import_metadata g2 (export_doc enc ns g True) = g2\<lparr>sourceKind := appendString (sourceKind g)\<rparr>"
  unfolding import_metadata_def export_doc_fields(2)
  by (cases "sourceKind g = []") (simp_all add: source_kind_field appendString.simps)

lemma ValidString_tests:
  "ValidString ''1''" "ValidString ''2''" "ValidString ''3''" "ValidString ''test''"
  "ValidString ''CONNECTS_TO''" "ValidString ''test-source''"
  "\<not> ValidString [CHR 0xFF]" "\<not> ValidString [CHR 0xFE]"
  by (simp_all add: DecodeRuneInString_def acceptRange_def)

declare ValidString.simps [simp del]

lemma test_graph_range_order: "range_order (nodes test_graph) [''1'', ''2'', ''3'']"
  by (auto simp: range_order_def test_graph_eq split: if_splits)

lemma test_graph_well_formed: "well_formed test_graph"
  by (auto simp: well_formed_def test_graph_eq test_node_def test_edge_def triple_def
      split: if_splits)

lemma test_graph_encodable: "encodable_graph enc_nat test_graph"
  by (auto simp: encodable_graph_def encodable_props_def test_graph_eq test_node_def
      test_edge_def NewProperties_def split: if_splits)

lemma test_graph_valid_strings: "valid_strings test_graph"
  by (auto simp: valid_strings_def test_graph_eq test_edge_def ValidString_tests
      split: if_splits)

lemma dangling_graph_eq:
  "dangling_graph =
     \<lparr> nodes = Map.empty, edges = [test_edge ''1'' ''2'' NewProperties], sourceKind = ''Base'' \<rparr>"
  by (simp add: dangling_graph_def AddEdgeWithoutValidation_def NewOpenGraph_def)

lemma bytes_graph_eq:
  "bytes_graph =
     \<lparr> nodes = [ [CHR 0xFF] \<mapsto> test_node [CHR 0xFF] [''Base''],
                 [CHR 0xFE] \<mapsto> test_node [CHR 0xFE] [''Base''] ],
       edges = [], sourceKind = ''Base'' \<rparr>"
  by (simp add: bytes_graph_def AddNode_eq NewOpenGraph_def test_node_def Let_def)

text \<open>
  The mutators that check their argument keep a graph well formed, and a new graph is
  well formed: these are the graphs of the round trip below.
\<close>

lemma well_formed_NewOpenGraph: "well_formed (NewOpenGraph sk)"
  by (simp add: well_formed_def NewOpenGraph_def)

lemma well_formed_AddNode:
  assumes "well_formed g" and "node_id n \<noteq> ''''"
  shows "well_formed (fst (snd (AddNode g n)))"
  using assms by (auto simp: AddNode_eq well_formed_def Let_def)

lemma well_formed_AddEdge:
  assumes "well_formed g" and "kind e \<noteq> ''''"
  shows "well_formed (snd (AddEdge g e))"
  using assms by (auto simp: AddEdge_eq well_formed_def)

lemma well_formed_RemoveNodeByID:
  assumes "well_formed g"
  shows "well_formed (snd (RemoveNodeByID g i))"
  using assms
  by (auto simp: RemoveNodeByID_def well_formed_def GetStartNodeID_def GetEndNodeID_def
      distinct_map_filter)
lemma appendString_Base: "appendString ''Base'' = ''Base''"
  by (simp add: appendString.simps DecodeRuneInString_def)

lemma ExportJSON_NewOpenGraph:
  "ExportJSON enc [] (NewOpenGraph sk) True =
     Inr (JObject ((''graph'', JObject [ (''edges'', JArray []), (''nodes'', JArray []) ]) #
                   (if sk \<noteq> '''' then [ (''metadata'', JObject [ (''source_kind'', JString (appendString sk)) ]) ]
                    else [])))"
  unfolding ExportJSON_eq
  by (simp add: encodable_def export_doc_def NewOpenGraph_def)

text \<open>
  C7. Let \<open>ks\<close> be the order in which the iteration visits the node map. \<open>ExportJSON\<close>
  returns a document exactly when the encoder accepts every property value (else the
  encoder's error). In every document it returns, \<open>graph.nodes\<close> and \<open>graph.edges\<close> are
  arrays, with one entry for every node and for every edge (so they are empty arrays for a
  graph without nodes or edges, never null or absent), and the key \<open>metadata\<close> is present
  exactly when \<open>includeMetadata\<close> is true and the source kind is not empty; then it
  holds \<open>source_kind\<close> with the source kind as the encoder writes it, with U+FFFD in
  the place of every byte that is not part of a valid UTF-8 encoding. That string is the
  source kind of the graph exactly when the source kind is valid UTF-8.
\<close>

theorem ExportJSON_document:
  assumes "range_order (nodes g) ks"
  shows "(encodable_graph enc g \<longrightarrow> (\<exists>doc. ExportJSON enc ks g includeMetadata = Inr doc)) \<and>
         (\<not> encodable_graph enc g \<longrightarrow> ExportJSON enc ks g includeMetadata = Inl MarshalError) \<and>
         (\<forall>doc. ExportJSON enc ks g includeMetadata = Inr doc \<longrightarrow>
            (\<exists>ns es. Option.bind (field doc ''graph'') (\<lambda>c. field c ''nodes'') = Some (JArray ns) \<and>
                     length ns = GetNodeCount g \<and>
                     Option.bind (field doc ''graph'') (\<lambda>c. field c ''edges'') = Some (JArray es) \<and>
                     length es = GetEdgeCount g \<and>
                     field doc ''metadata'' =
                       (if includeMetadata \<and> sourceKind g \<noteq> ''''
                        then Some (JObject [ (''source_kind'', JString (appendString (sourceKind g))) ])
                        else None))) \<and>
         (appendString (sourceKind g) = sourceKind g \<longleftrightarrow> ValidString (sourceKind g))"
proof -
  let ?ns = "List.map_filter (nodes g) ks"
  note eq = ExportJSON_eq [of enc ks g includeMetadata, unfolded encodable_range_order [OF assms]]
  have len: "length ?ns = GetNodeCount g"
    by (simp add: map_filter_range_order(2) [OF assms] GetNodeCount_def)
  have shape: "Option.bind (field (export_doc enc ?ns g includeMetadata) ''graph'') (\<lambda>c. field c ''nodes'')
                 = Some (JArray (map (node_json enc) ?ns))"
    "Option.bind (field (export_doc enc ?ns g includeMetadata) ''graph'') (\<lambda>c. field c ''edges'')
                 = Some (JArray (map (edge_json enc) (edges g)))"
    by (simp_all add: export_doc_fields content_fields)
  show ?thesis
  proof (intro conjI impI allI)
    assume "encodable_graph enc g"
    then show "\<exists>doc. ExportJSON enc ks g includeMetadata = Inr doc" using eq by simp
  next
    assume "\<not> encodable_graph enc g"
    then show "ExportJSON enc ks g includeMetadata = Inl MarshalError" using eq by simp
  next
    fix doc assume "ExportJSON enc ks g includeMetadata = Inr doc"
    with eq have doc: "doc = export_doc enc ?ns g includeMetadata"
      by (simp split: if_splits)
    show "\<exists>ns es. Option.bind (field doc ''graph'') (\<lambda>c. field c ''nodes'') = Some (JArray ns) \<and>
                     length ns = GetNodeCount g \<and>
                     Option.bind (field doc ''graph'') (\<lambda>c. field c ''edges'') = Some (JArray es) \<and>
                     length es = GetEdgeCount g \<and>
                     field doc ''metadata'' =
                       (if includeMetadata \<and> sourceKind g \<noteq> ''''
                        then Some (JObject [ (''source_kind'', JString (appendString (sourceKind g))) ])
                        else None)"
      unfolding doc shape export_doc_fields(2)
      using len by (simp add: GetEdgeCount_def)
  next
    show "appendString (sourceKind g) = sourceKind g \<longleftrightarrow> ValidString (sourceKind g)"
      by (rule appendString_fixed)
  qed
qed

theorem ExportJSON_document_witness:
  "range_order (nodes (NewOpenGraph ''test-source'' :: nat opengraph)) [] \<and>
   ValidString ''test-source'' \<and>
   (\<exists>doc. ExportJSON enc_nat [] (NewOpenGraph ''test-source'') True = Inr doc \<and>
          Option.bind (field doc ''graph'') (\<lambda>c. field c ''nodes'') = Some (JArray []) \<and>
          Option.bind (field doc ''graph'') (\<lambda>c. field c ''edges'') = Some (JArray []) \<and>
          field doc ''metadata'' = Some (JObject [ (''source_kind'', JString ''test-source'') ])) \<and>
   (\<exists>doc. ExportJSON enc_nat [] (NewOpenGraph ''test-source'') False = Inr doc \<and>
          field doc ''metadata'' = None)"
proof -
  let ?g = "NewOpenGraph ''test-source'' :: nat opengraph"
  have ro: "range_order (nodes ?g) []"
    by (simp add: range_order_def NewOpenGraph_def)
  have en: "encodable_graph enc_nat ?g"
    by (simp add: encodable_graph_def NewOpenGraph_def)
  have cnt: "GetNodeCount ?g = 0" "GetEdgeCount ?g = 0" "sourceKind ?g = ''test-source''"
    by (simp_all add: GetNodeCount_def GetEdgeCount_def NewOpenGraph_def)
  have va: "ValidString ''test-source''" by (rule ValidString_tests)
  from ExportJSON_document [OF ro, of enc_nat True] en cnt va
  have 1: "\<exists>doc. ExportJSON enc_nat [] ?g True = Inr doc \<and>
          Option.bind (field doc ''graph'') (\<lambda>c. field c ''nodes'') = Some (JArray []) \<and>
          Option.bind (field doc ''graph'') (\<lambda>c. field c ''edges'') = Some (JArray []) \<and>
          field doc ''metadata'' = Some (JObject [ (''source_kind'', JString ''test-source'') ])"
    by auto
  from ExportJSON_document [OF ro, of enc_nat False] en cnt
  have 2: "\<exists>doc. ExportJSON enc_nat [] ?g False = Inr doc \<and> field doc ''metadata'' = None"
    by auto
  from ro va 1 2 show ?thesis by blast
qed

text \<open>
  The claim C7 as it is written lets \<open>source_kind\<close> equal the source kind for every
  graph. A graph made with the single byte FF as its source kind, which is not valid
  UTF-8, is exported with U+FFFD (the bytes EF BF BD) as \<open>source_kind\<close>.
\<close>

theorem ExportJSON_document_counterexample:
  "range_order (nodes (NewOpenGraph [CHR 0xFF] :: nat opengraph)) [] \<and>
   sourceKind (NewOpenGraph [CHR 0xFF] :: nat opengraph) = [CHR 0xFF] \<and>
   ExportJSON enc_nat [] (NewOpenGraph [CHR 0xFF]) True =
     Inr (JObject [ (''graph'', JObject [ (''edges'', JArray []), (''nodes'', JArray []) ]),
                    (''metadata'', JObject [ (''source_kind'', JString [CHR 0xEF, CHR 0xBF, CHR 0xBD]) ]) ])"
proof -
  have "range_order (nodes (NewOpenGraph [CHR 0xFF] :: nat opengraph)) []"
    by (simp add: range_order_def NewOpenGraph_def)
  moreover have "sourceKind (NewOpenGraph [CHR 0xFF] :: nat opengraph) = [CHR 0xFF]"
    by (simp add: NewOpenGraph_def)
  moreover have "ExportJSON enc_nat [] (NewOpenGraph [CHR 0xFF]) True =
     Inr (JObject [ (''graph'', JObject [ (''edges'', JArray []), (''nodes'', JArray []) ]),
                    (''metadata'', JObject [ (''source_kind'', JString [CHR 0xEF, CHR 0xBF, CHR 0xBD]) ]) ])"
    unfolding ExportJSON_NewOpenGraph appendString_bytes by simp
  ultimately show ?thesis by blast
qed

text \<open>
  C1. For a well-formed graph whose property values the encoder accepts and whose node
  ids, edge ends, edge kinds and source kind are valid UTF-8, the export with metadata
  succeeds and the import of the document into a new graph with an empty source kind
  succeeds; the imported graph has the same number of nodes, the same number of edges and
  the same source kind, every node of one graph has a node with the same id in the other,
  and every edge of one has an edge with the same start, end and kind in the other.
\<close>

theorem export_import_roundtrip:
  fixes g :: "'v opengraph" and dec :: "json \<Rightarrow> 'v"
  assumes "range_order (nodes g) ks" and "well_formed g" and "encodable_graph enc g"
    and "valid_strings g"
  shows "\<exists>doc g'. ExportJSON enc ks g True = Inr doc \<and>
           FromJSON dec (NewOpenGraph '''') doc = Inr g' \<and>
           GetNodeCount g' = GetNodeCount g \<and>
           GetEdgeCount g' = GetEdgeCount g \<and>
           sourceKind g' = sourceKind g \<and>
           (\<forall>n \<in> ran (nodes g). \<exists>n' \<in> ran (nodes g'). Node_Equal n (Some n')) \<and>
           (\<forall>n' \<in> ran (nodes g'). \<exists>n \<in> ran (nodes g). Node_Equal n' (Some n)) \<and>
           (\<forall>e \<in> set (edges g). \<exists>e' \<in> set (edges g'). Edge_Equal e (Some e')) \<and>
           (\<forall>e' \<in> set (edges g'). \<exists>e \<in> set (edges g). Edge_Equal e' (Some e))"
proof -
  let ?ns = "List.map_filter (nodes g) ks"
  let ?doc = "export_doc enc ?ns g True"
  let ?g0 = "NewOpenGraph '''' :: 'v opengraph"
  from assms(2) have km: "\<And>k n. nodes g k = Some n \<Longrightarrow> node_id n = k"
    and ne: "\<And>k n. nodes g k = Some n \<Longrightarrow> k \<noteq> ''''"
    and ed: "\<And>e. e \<in> set (edges g) \<Longrightarrow>
               startNodeID e \<in> dom (nodes g) \<and> endNodeID e \<in> dom (nodes g) \<and> kind e \<noteq> ''''"
    and di: "distinct (map triple (edges g))"
    by (auto simp: well_formed_def)
  from assms(4) have vk: "\<And>k n. nodes g k = Some n \<Longrightarrow> ValidString k"
    and ve: "\<And>e. e \<in> set (edges g) \<Longrightarrow>
               ValidString (startNodeID e) \<and> ValidString (endNodeID e) \<and> ValidString (kind e)"
    and vs: "ValidString (sourceKind g)"
    by (auto simp: valid_strings_def)
  have export: "ExportJSON enc ks g True = Inr ?doc"
    using ExportJSON_eq [of enc ks g True] assms(3) encodable_range_order [OF assms(1), of enc]
    by simp
  have set_ns: "set ?ns = ran (nodes g)" by (rule map_filter_range_order(1) [OF assms(1)])
  have ids: "node_id ` set ?ns = dom (nodes g)"
  proof (intro set_eqI iffI)
    fix k assume "k \<in> node_id ` set ?ns"
    then obtain n where "n \<in> ran (nodes g)" "k = node_id n" using set_ns by auto
    then obtain k' where "nodes g k' = Some n" "k = node_id n" by (auto simp: ran_def)
    with km show "k \<in> dom (nodes g)" by auto
  next
    fix k assume "k \<in> dom (nodes g)"
    then obtain n where n: "nodes g k = Some n" by auto
    then have "n \<in> set ?ns" using set_ns by (simp add: ranI)
    moreover have "node_id n = k" using km n by simp
    ultimately show "k \<in> node_id ` set ?ns" by force
  qed
  have nonempty: "\<forall>n \<in> set ?ns. node_id n \<noteq> '''' \<and> ValidString (node_id n)"
  proof
    fix n assume "n \<in> set ?ns"
    then obtain k where "nodes g k = Some n" using set_ns by (auto simp: ran_def)
    with km ne vk show "node_id n \<noteq> '''' \<and> ValidString (node_id n)" by metis
  qed
  have sk0: "sourceKind ?g0 = ''''" by (simp add: NewOpenGraph_def)
  from import_nodes_ok [OF sk0 nonempty, of dec enc]
  obtain g1 where g1: "import_nodes dec ?g0 (map (node_json enc) ?ns) = Inr g1"
    "dom (nodes g1) = dom (nodes ?g0) \<union> node_id ` set ?ns"
    "edges g1 = edges ?g0" "sourceKind g1 = ''''" "keys_match ?g0 \<longrightarrow> keys_match g1"
    by blast
  have dom1: "dom (nodes g1) = dom (nodes g)"
    using g1(2) ids by (simp add: NewOpenGraph_def)
  have km1: "keys_match g1" using g1(5) by (simp add: keys_match_def NewOpenGraph_def)
  have edges1: "edges g1 = []" using g1(3) by (simp add: NewOpenGraph_def)
  have pre: "\<forall>e \<in> set (edges g). startNodeID e \<in> dom (nodes g1) \<and> endNodeID e \<in> dom (nodes g1) \<and>
                          startNodeID e \<noteq> '''' \<and> endNodeID e \<noteq> '''' \<and> kind e \<noteq> '''' \<and>
                          ValidString (startNodeID e) \<and> ValidString (endNodeID e) \<and>
                          ValidString (kind e)"
  proof
    fix e assume e: "e \<in> set (edges g)"
    from ed [OF e] obtain a b where "nodes g (startNodeID e) = Some a"
      "nodes g (endNodeID e) = Some b" "kind e \<noteq> ''''" by auto
    with ne ed [OF e] dom1
    have "startNodeID e \<in> dom (nodes g1) \<and> endNodeID e \<in> dom (nodes g1) \<and>
          startNodeID e \<noteq> '''' \<and> endNodeID e \<noteq> '''' \<and> kind e \<noteq> ''''" by metis
    with ve [OF e]
    show "startNodeID e \<in> dom (nodes g1) \<and> endNodeID e \<in> dom (nodes g1) \<and>
          startNodeID e \<noteq> '''' \<and> endNodeID e \<noteq> '''' \<and> kind e \<noteq> '''' \<and>
          ValidString (startNodeID e) \<and> ValidString (endNodeID e) \<and> ValidString (kind e)"
      by blast
  qed
  have di1: "distinct (map triple (edges g1 @ edges g))" using di edges1 by simp
  from import_edges_ok [OF pre di1, of dec enc]
  obtain g2 where g2: "import_edges dec g1 (map (edge_json enc) (edges g)) = Inr g2"
    "nodes g2 = nodes g1" "sourceKind g2 = sourceKind g1"
    "map triple (edges g2) = map triple (edges g1 @ edges g)"
    by blast
  let ?g' = "g2\<lparr>sourceKind := sourceKind g\<rparr>"
  have sk2: "sourceKind g2 = ''''" using g2(3) g1(4) by simp
  have import: "FromJSON dec ?g0 ?doc = Inr ?g'"
    unfolding FromJSON_def export_doc_fields
    by (simp add: content_fields as_array_def g1(1) g2(1) import_metadata_export_doc [OF sk2]
        appendString_valid [OF vs])
  have tr: "map triple (edges ?g') = map triple (edges g)" using g2(4) edges1 by simp
  have dom': "dom (nodes ?g') = dom (nodes g)" using g2(2) dom1 by simp
  have km': "\<And>k n. nodes ?g' k = Some n \<Longrightarrow> node_id n = k"
    using km1 g2(2) by (simp add: keys_match_def)
  have c1: "GetNodeCount ?g' = GetNodeCount g" using dom' by (simp add: GetNodeCount_def)
  have c2: "GetEdgeCount ?g' = GetEdgeCount g"
    using arg_cong [OF tr, of length] by (simp add: GetEdgeCount_def)
  have n1: "\<forall>n \<in> ran (nodes g). \<exists>n' \<in> ran (nodes ?g'). Node_Equal n (Some n')"
  proof
    fix n assume "n \<in> ran (nodes g)"
    then obtain k where k: "nodes g k = Some n" by (auto simp: ran_def)
    then have "k \<in> dom (nodes ?g')" using dom' by auto
    then obtain n' where n': "nodes ?g' k = Some n'" by auto
    from km [OF k] km' [OF n'] have "Node_Equal n (Some n')" by simp
    moreover from n' have "n' \<in> ran (nodes ?g')" by (rule ranI)
    ultimately show "\<exists>n' \<in> ran (nodes ?g'). Node_Equal n (Some n')" by blast
  qed
  have n2: "\<forall>n' \<in> ran (nodes ?g'). \<exists>n \<in> ran (nodes g). Node_Equal n' (Some n)"
  proof
    fix n' assume "n' \<in> ran (nodes ?g')"
    then obtain k where k: "nodes ?g' k = Some n'" by (auto simp: ran_def)
    then have "k \<in> dom (nodes g)" using dom' by auto
    then obtain n where n: "nodes g k = Some n" by auto
    from km [OF n] km' [OF k] have "Node_Equal n' (Some n)" by simp
    moreover from n have "n \<in> ran (nodes g)" by (rule ranI)
    ultimately show "\<exists>n \<in> ran (nodes g). Node_Equal n' (Some n)" by blast
  qed
  have sets: "triple ` set (edges ?g') = triple ` set (edges g)"
    using arg_cong [OF tr, of set] by simp
  have e1: "\<forall>e \<in> set (edges g). \<exists>e' \<in> set (edges ?g'). Edge_Equal e (Some e')"
  proof
    fix e assume "e \<in> set (edges g)"
    then have "triple e \<in> triple ` set (edges ?g')" using sets by blast
    then obtain e' where "e' \<in> set (edges ?g')" "triple e = triple e'" by auto
    then show "\<exists>e' \<in> set (edges ?g'). Edge_Equal e (Some e')"
      by (auto simp: triple_def)
  qed
  have e2: "\<forall>e' \<in> set (edges ?g'). \<exists>e \<in> set (edges g). Edge_Equal e' (Some e)"
  proof
    fix e' assume "e' \<in> set (edges ?g')"
    then have "triple e' \<in> triple ` set (edges g)" using sets by blast
    then obtain e where "e \<in> set (edges g)" "triple e' = triple e" by auto
    then show "\<exists>e \<in> set (edges g). Edge_Equal e' (Some e)"
      by (auto simp: triple_def)
  qed
  have sk: "sourceKind ?g' = sourceKind g" by simp
  from export import c1 c2 sk n1 n2 e1 e2 show ?thesis by blast
qed

theorem export_import_roundtrip_witness:
  "range_order (nodes test_graph) [''1'', ''2'', ''3''] \<and> well_formed test_graph \<and>
   encodable_graph enc_nat test_graph \<and> valid_strings test_graph \<and>
   (\<exists>doc g'. ExportJSON enc_nat [''1'', ''2'', ''3''] test_graph True = Inr doc \<and>
             FromJSON dec_nat (NewOpenGraph '''') doc = Inr g' \<and>
             GetNodeCount g' = GetNodeCount test_graph \<and>
             GetEdgeCount g' = 2 \<and> sourceKind g' = ''test'')"
proof -
  have c: "GetEdgeCount test_graph = 2" "sourceKind test_graph = ''test''"
    by (simp_all add: GetEdgeCount_def test_graph_eq)
  from export_import_roundtrip [OF test_graph_range_order test_graph_well_formed
      test_graph_encodable test_graph_valid_strings, of dec_nat] c
  have "\<exists>doc g'. ExportJSON enc_nat [''1'', ''2'', ''3''] test_graph True = Inr doc \<and>
             FromJSON dec_nat (NewOpenGraph '''') doc = Inr g' \<and>
             GetNodeCount g' = GetNodeCount test_graph \<and>
             GetEdgeCount g' = 2 \<and> sourceKind g' = ''test''"
    by metis
  with test_graph_range_order test_graph_well_formed test_graph_encodable
    test_graph_valid_strings show ?thesis by blast
qed

text \<open>
  The claim C1 as it is written speaks of every graph. First, the export loses bytes
  that are not valid UTF-8, whatever the import does: the new graphs with the source
  kinds FF and FE have the same document. A graph with the two node ids FF and FE, built
  with \<open>AddNode\<close>, is exported with the id U+FFFD in both node records, and the import
  registers one node. Second, a graph that holds an edge between ids that are not
  registered is exported with that edge, and the import, which registers edges with
  \<open>AddEdge\<close>, does not take it: the edge counts differ.
\<close>

theorem export_import_roundtrip_counterexample:
  "ExportJSON enc_nat [] (NewOpenGraph [CHR 0xFF]) True
     = ExportJSON enc_nat [] (NewOpenGraph [CHR 0xFE]) True \<and>
   sourceKind (NewOpenGraph [CHR 0xFF] :: nat opengraph)
     \<noteq> sourceKind (NewOpenGraph [CHR 0xFE] :: nat opengraph) \<and>
   range_order (nodes bytes_graph) [[CHR 0xFF], [CHR 0xFE]] \<and>
   well_formed bytes_graph \<and> encodable_graph enc_nat bytes_graph \<and>
   GetNodeCount bytes_graph = 2 \<and>
   (\<exists>doc n1 n2 g'.
      ExportJSON enc_nat [[CHR 0xFF], [CHR 0xFE]] bytes_graph True = Inr doc \<and>
      Option.bind (field doc ''graph'') (\<lambda>c. as_array (field c ''nodes'')) = Some [n1, n2] \<and>
      field n1 ''id'' = Some (JString [CHR 0xEF, CHR 0xBF, CHR 0xBD]) \<and>
      field n2 ''id'' = Some (JString [CHR 0xEF, CHR 0xBF, CHR 0xBD]) \<and>
      FromJSON dec_nat (NewOpenGraph '''') doc = Inr g' \<and>
      GetNodeCount g' = 1) \<and>
   range_order (nodes dangling_graph) [] \<and>
   GetEdgeCount dangling_graph = 1 \<and>
   (\<exists>doc g'. ExportJSON enc_nat [] dangling_graph True = Inr doc \<and>
             FromJSON dec_nat (NewOpenGraph '''') doc = Inr g' \<and>
             GetEdgeCount g' = 0)"
proof -
  have a: "ExportJSON enc_nat [] (NewOpenGraph [CHR 0xFF]) True
             = ExportJSON enc_nat [] (NewOpenGraph [CHR 0xFE]) True"
    unfolding ExportJSON_NewOpenGraph appendString_bytes by simp
  have b: "sourceKind (NewOpenGraph [CHR 0xFF] :: nat opengraph)
             \<noteq> sourceKind (NewOpenGraph [CHR 0xFE] :: nat opengraph)"
    by (simp add: NewOpenGraph_def)
  let ?ks = "[[CHR 0xFF], [CHR 0xFE]]"
  let ?r = "[CHR 0xEF, CHR 0xBF, CHR 0xBD]"
  let ?n1 = "test_node [CHR 0xFF] [''Base'']"
  let ?n2 = "test_node [CHR 0xFE] [''Base'']"
  let ?doc = "export_doc enc_nat [?n1, ?n2] bytes_graph True"
  define p :: "nat properties"
    where "p = map_option dec_nat \<circ> object_map (members (\<lambda>k. Option.bind (NewProperties k) enc_nat))"
  let ?m = "\<lparr> node_id = ?r, kinds = [''Base''], node_properties = p \<rparr>"
  let ?g1 = "\<lparr> nodes = [ ?r \<mapsto> ?m ], edges = [], sourceKind = '''' \<rparr> :: nat opengraph"
  have ro: "range_order (nodes bytes_graph) ?ks"
    by (auto simp: range_order_def bytes_graph_eq split: if_splits)
  have wf: "well_formed bytes_graph"
    by (auto simp: well_formed_def bytes_graph_eq test_node_def split: if_splits)
  have en: "encodable_graph enc_nat bytes_graph"
    by (auto simp: encodable_graph_def encodable_props_def bytes_graph_eq test_node_def
        NewProperties_def split: if_splits)
  have cn: "GetNodeCount bytes_graph = 2"
    by (simp add: GetNodeCount_def bytes_graph_eq)
  have ns: "List.map_filter (nodes bytes_graph) ?ks = [?n1, ?n2]"
    by (simp add: bytes_graph_eq List.map_filter_def)
  have ex: "ExportJSON enc_nat ?ks bytes_graph True = Inr ?doc"
    unfolding ExportJSON_eq ns
    using en encodable_range_order [OF ro, of enc_nat, unfolded ns] by simp
  have ids: "field (node_json enc_nat ?n1) ''id'' = Some (JString ?r)"
    "field (node_json enc_nat ?n2) ''id'' = Some (JString ?r)"
    by (simp_all add: node_json_fields test_node_def appendString_bytes)
  have parse: "node_of_json dec_nat (node_json enc_nat ?n1) = Inr ?m"
    "node_of_json dec_nat (node_json enc_nat ?n2) = Inr ?m"
    by (simp_all add: node_of_json_node_json NewNode_def test_node_def appendString_bytes
        appendString_Base p_def)
  have imp: "import_nodes dec_nat (NewOpenGraph '''') [node_json enc_nat ?n1, node_json enc_nat ?n2] = Inr ?g1"
    by (simp add: parse AddNode_eq NewOpenGraph_def Let_def)
  have md: "import_metadata ?g1 ?doc = ?g1\<lparr>sourceKind := ''Base''\<rparr>"
    by (simp add: import_metadata_export_doc bytes_graph_eq appendString_Base)
  let ?c = "JObject [ (''edges'', JArray []),
                      (''nodes'', JArray [node_json enc_nat ?n1, node_json enc_nat ?n2]) ]"
  have f1: "field ?doc ''graph'' = Some ?c"
    by (simp add: export_doc_fields bytes_graph_eq)
  have f2: "as_array (field ?c ''nodes'') = Some [node_json enc_nat ?n1, node_json enc_nat ?n2]"
    "as_array (field ?c ''edges'') = Some []"
    by (simp_all add: content_fields as_array_def)
  have im: "FromJSON dec_nat (NewOpenGraph '''') ?doc = Inr (?g1\<lparr>sourceKind := ''Base''\<rparr>)"
    by (simp only: FromJSON_def f1 f2 imp md option.case sum.case import_edges.simps)
  have c1: "GetNodeCount (?g1\<lparr>sourceKind := ''Base''\<rparr>) = 1"
    by (simp add: GetNodeCount_def)
  have ar: "Option.bind (field ?doc ''graph'') (\<lambda>c. as_array (field c ''nodes''))
              = Some [node_json enc_nat ?n1, node_json enc_nat ?n2]"
    by (simp only: f1 f2 Option.bind.simps)
  from ex ar ids im c1
  have c: "\<exists>doc n1 n2 g'.
      ExportJSON enc_nat ?ks bytes_graph True = Inr doc \<and>
      Option.bind (field doc ''graph'') (\<lambda>c. as_array (field c ''nodes'')) = Some [n1, n2] \<and>
      field n1 ''id'' = Some (JString ?r) \<and>
      field n2 ''id'' = Some (JString ?r) \<and>
      FromJSON dec_nat (NewOpenGraph '''') doc = Inr g' \<and>
      GetNodeCount g' = 1"
    by blast
  let ?e = "test_edge ''1'' ''2'' NewProperties :: nat edge"
  let ?dd = "export_doc enc_nat [] dangling_graph True"
  have ro2: "range_order (nodes dangling_graph) []"
    by (simp add: range_order_def dangling_graph_eq)
  have en2: "encodable enc_nat [] dangling_graph"
    by (simp add: encodable_def encodable_props_def dangling_graph_eq test_edge_def
        NewProperties_def)
  have ex2: "ExportJSON enc_nat [] dangling_graph True = Inr ?dd"
    using ExportJSON_eq [of enc_nat "[]" dangling_graph True] en2
    by simp
  have va: "appendString ''1'' = ''1''" "appendString ''2'' = ''2''"
    "appendString ''CONNECTS_TO'' = ''CONNECTS_TO''"
    by (simp_all add: appendString_valid ValidString_tests)
  have parse2: "edge_of_json dec_nat (edge_json enc_nat ?e) = Inr ?e"
    by (simp add: edge_of_json_edge_json NewEdge_def test_edge_def NewProperties_def va)
  have rej: "snd (AddEdge (NewOpenGraph '''') ?e) = (NewOpenGraph '''' :: nat opengraph)"
    by (simp add: AddEdge_eq NewOpenGraph_def test_edge_def)
  have edges: "import_edges dec_nat (NewOpenGraph '''') (map (edge_json enc_nat) (edges dangling_graph))
                 = Inr (NewOpenGraph '''')"
    by (simp add: dangling_graph_eq parse2 rej)
  have md2: "import_metadata (NewOpenGraph '''') ?dd = (NewOpenGraph ''Base'' :: nat opengraph)"
    by (simp add: import_metadata_export_doc NewOpenGraph_def dangling_graph_eq
        appendString_Base)
  have im2: "FromJSON dec_nat (NewOpenGraph '''') ?dd = Inr (NewOpenGraph ''Base'')"
    unfolding FromJSON_def export_doc_fields
    by (simp add: content_fields as_array_def edges md2)
  have cnt: "GetEdgeCount (NewOpenGraph ''Base'' :: nat opengraph) = 0"
    "GetEdgeCount dangling_graph = 1"
    by (simp_all add: GetEdgeCount_def NewOpenGraph_def dangling_graph_eq)
  from ex2 im2 cnt(1)
  have d: "\<exists>doc g'. ExportJSON enc_nat [] dangling_graph True = Inr doc \<and>
             FromJSON dec_nat (NewOpenGraph '''') doc = Inr g' \<and>
             GetEdgeCount g' = 0"
    by blast
  from a b ro wf en cn c ro2 cnt(2) d show ?thesis by blast
qed

end
